theory Spec2Isabelle
  imports Main "HOL-Library.AList"
begin

section \<open>Values, frames and promises\<close>

text \<open>
  The client of \<^verbatim>\<open>lib/websocket.js\<close> is embedded as a record of its private fields
  and one function per method. JavaScript values that the client only passes around are
  kept in a small value type. \<open>Num s\<close> is the number that JavaScript prints as \<open>s\<close>
  (\<^verbatim>\<open>String(x)\<close>: \<^verbatim>\<open>"100"\<close>, \<^verbatim>\<open>"1.5"\<close>, \<^verbatim>\<open>"1e+21"\<close>, \<^verbatim>\<open>"NaN"\<close>, and
  \<^verbatim>\<open>"0"\<close> for both zeros): the client only tests numbers for truth and prints them.
  \<open>Obj kvs\<close> is a plain object with the own members \<open>kvs\<close>, none of them a function, as
  \<^verbatim>\<open>JSON.parse\<close> returns it. \<open>Err m\<close> is an \<^verbatim>\<open>Error\<close> object with message \<open>m\<close>,
  \<open>TypeErr m\<close> a \<^verbatim>\<open>TypeError\<close>.
\<close>

datatype jsval =
    Undefined
  | Null
  | Bool bool
  | Num string
  | Str string
  | Obj "(string \<times> jsval) list"
  | Err string
  | TypeErr string

fun truthy :: "jsval \<Rightarrow> bool" where
  "truthy Undefined = False"
| "truthy Null = False"
| "truthy (Bool b) = b"
| "truthy (Num s) = (s \<noteq> ''0'' \<and> s \<noteq> ''NaN'')"
| "truthy (Str s) = (s \<noteq> [])"
| "truthy (Obj kvs) = True"
| "truthy (Err m) = True"
| "truthy (TypeErr m) = True"

text \<open>\<^verbatim>\<open>a || b\<close>\<close>

definition js_or :: "jsval \<Rightarrow> jsval \<Rightarrow> jsval" where
  "js_or a b = (if truthy a then a else b)"

text \<open>
  Property read \<^verbatim>\<open>v.name\<close>, for the names \<^verbatim>\<open>ok\<close> and \<^verbatim>\<open>error\<close> that the client
  reads: reading a property of \<^verbatim>\<open>undefined\<close> or \<^verbatim>\<open>null\<close> throws a \<^verbatim>\<open>TypeError\<close>; a
  primitive has no such property.
\<close>

fun getProp :: "jsval \<Rightarrow> string \<Rightarrow> jsval + jsval" where
  "getProp Undefined k = Inl (TypeErr ''Cannot read properties of undefined'')"
| "getProp Null k = Inl (TypeErr ''Cannot read properties of null'')"
| "getProp (Obj kvs) k = Inr (case map_of kvs k of None \<Rightarrow> Undefined | Some v \<Rightarrow> v)"
| "getProp (Err m) k = Inr (if k = ''message'' then Str m else Undefined)"
| "getProp (TypeErr m) k = Inr (if k = ''message'' then Str m else Undefined)"
| "getProp v k = Inr Undefined"

text \<open>Decimal rendering of a natural number.\<close>

definition digit :: "nat \<Rightarrow> char" where
  "digit d = ''0123456789'' ! (d mod 10)"

fun showNat :: "nat \<Rightarrow> string" where
  "showNat n = (if n < 10 then [digit n] else showNat (n div 10) @ [digit (n mod 10)])"

declare showNat.simps [simp del]

text \<open>
  \<^verbatim>\<open>`${v}`\<close>. A plain object is printed by the inherited \<^verbatim>\<open>toString\<close>; when it has an
  own member \<^verbatim>\<open>toString\<close> (no function), neither that nor \<^verbatim>\<open>valueOf\<close> gives a
  primitive and a \<^verbatim>\<open>TypeError\<close> is thrown. An error object prints its name and, when
  it is not empty, its message.
\<close>

fun toStr :: "jsval \<Rightarrow> jsval + string" where
  "toStr Undefined = Inr ''undefined''"
| "toStr Null = Inr ''null''"
| "toStr (Bool b) = Inr (if b then ''true'' else ''false'')"
| "toStr (Num s) = Inr s"
| "toStr (Str s) = Inr s"
| "toStr (Obj kvs) =
     (if ''toString'' \<in> fst ` set kvs
      then Inl (TypeErr ''Cannot convert object to primitive value'')
      else Inr ''[object Object]'')"
| "toStr (Err m) = Inr (if m = [] then ''Error'' else ''Error: '' @ m)"
| "toStr (TypeErr m) = Inr (if m = [] then ''TypeError'' else ''TypeError: '' @ m)"

text \<open>
  A decoded inbound frame, an object: the members that the client reads, and its other
  members. An absent member is \<open>None\<close> (for \<open>data\<close>: \<open>Undefined\<close>).
\<close>

record message =
  e :: "string option"
  oid :: "string option"
  ok :: "string option"
  data :: jsval
  others :: "(string \<times> jsval) list"

text \<open>
  \<^verbatim>\<open>obj[message.e]\<close>: a property key is a string, and an absent field is the key
  \<^verbatim>\<open>"undefined"\<close>.
\<close>

fun propKey :: "string option \<Rightarrow> string" where
  "propKey None = ''undefined''"
| "propKey (Some s) = s"

text \<open>\<^verbatim>\<open>if (message.oid)\<close>: an absent or empty oid is falsy.\<close>

fun truthyField :: "string option \<Rightarrow> bool" where
  "truthyField None = False"
| "truthyField (Some s) = (s \<noteq> [])"

text \<open>
  \<^verbatim>\<open>#handlers\<close>, \<^verbatim>\<open>#waitForResp\<close> and \<^verbatim>\<open>#waitTimers\<close> are plain objects
  (\<^verbatim>\<open>{}\<close>): a read \<^verbatim>\<open>obj[key]\<close> finds the own member, and otherwise, for these names,
  the member inherited from \<^verbatim>\<open>Object.prototype\<close>. All of them are functions but
  \<^verbatim>\<open>__proto__\<close>, which is the prototype object.
\<close>

definition protoFunctions :: "string list" where
  "protoFunctions =
     [''constructor'', ''hasOwnProperty'', ''isPrototypeOf'', ''propertyIsEnumerable'',
      ''toLocaleString'', ''toString'', ''valueOf'', ''__defineGetter__'',
      ''__defineSetter__'', ''__lookupGetter__'', ''__lookupSetter__'']"

definition inherited :: "string \<Rightarrow> bool" where
  "inherited k \<longleftrightarrow> k \<in> set protoFunctions \<or> k = ''__proto__''"

text \<open>
  The frames the client sends, before \<^verbatim>\<open>JSON.stringify\<close>:
  \<open>Request method params oid\<close> is \<^verbatim>\<open>{e: method, data: params, oid: oid}\<close>;
  \<open>AuthRequest key signature now\<close> is
  \<^verbatim>\<open>{e: 'auth', auth: {key, signature, timestamp}, oid: 'auth'}\<close> with the timestamp
  \<open>now / 1000\<close> for \<open>now\<close> milliseconds; \<open>Ping\<close> is \<^verbatim>\<open>{"e": "ping"}\<close>.
\<close>
datatype frame =
    Request string jsval string
  | AuthRequest jsval string nat
  | Ping

text \<open>
  A promise is pending until its first \<^verbatim>\<open>resolve\<close> or \<^verbatim>\<open>reject\<close>; later
  calls have no effect. A defer is the index of its promise in the store.
\<close>

datatype outcome = Pending | Resolved jsval | Rejected jsval

datatype readyState = CONNECTING | OPEN | CLOSING | CLOSED

datatype handler =
    HDisconnected
  | HConnected nat
  | HAuth nat nat
  | HUser nat

datatype logline =
    LogConnecting jsval
  | LogIncoming message
  | LogIgnoring message
  | LogNoHandler message "string list"
  | LogSending frame

record options =
  wsReplyTimeout :: jsval
  rejectUnauthorized :: jsval
  host :: string
  apiUrl :: jsval
  apiUrlPublic :: jsval

section \<open>The client\<close>

text \<open>
  The private fields of \<^verbatim>\<open>WebsocketClient\<close>, followed by what the runtime holds for
  it: the promise store, the live timers (timer handle to the oid its callback closes
  over), and the observable effects (frames sent, every \<^verbatim>\<open>resolve\<close>/\<^verbatim>\<open>reject\<close>
  call, log lines, the subscribed callbacks invoked with their argument, the
  \<^verbatim>\<open>onClose\<close>/\<^verbatim>\<open>onError\<close> callbacks invoked with their argument).
\<close>

record client =
  apiKey :: jsval
  apiSecret :: jsval
  oidSeqId :: nat
  handlers :: "string \<rightharpoonup> handler"
  waitForResp :: "(string \<times> nat) list"
  waitTimers :: "string \<rightharpoonup> nat"
  isAuthorized :: bool
  isPublicClient :: bool
  opts :: options
  socket :: "readyState option"
  promises :: "outcome list"
  timers :: "nat \<rightharpoonup> string"
  timerSeq :: nat
  sent :: "frame list"
  settles :: "(nat \<times> outcome) list"
  logs :: "logline list"
  invoked :: "(nat \<times> message option) list"
  notified :: "(nat \<times> jsval) list"

definition log :: "logline \<Rightarrow> client \<Rightarrow> client" where
  "log l st = st\<lparr>logs := logs st @ [l]\<rparr>"

definition outcomeOf :: "client \<Rightarrow> nat \<Rightarrow> outcome" where
  "outcomeOf st d = (if d < length (promises st) then promises st ! d else Pending)"

text \<open>\<^verbatim>\<open>defer.resolve(v)\<close> and \<^verbatim>\<open>defer.reject(v)\<close>: the first call wins.\<close>

definition settle :: "nat \<Rightarrow> outcome \<Rightarrow> client \<Rightarrow> client" where
  "settle d oc st =
     st\<lparr>promises :=
          (if d < length (promises st) \<and> promises st ! d = Pending
           then (promises st)[d := oc] else promises st),
        settles := settles st @ [(d, oc)]\<rparr>"

text \<open>\<^verbatim>\<open>#getDefer\<close> (and \<^verbatim>\<open>new Promise\<close>): a fresh pending promise.\<close>

definition getDefer :: "client \<Rightarrow> nat \<times> client" where
  "getDefer st = (length (promises st), st\<lparr>promises := promises st @ [Pending]\<rparr>)"

text \<open>\<^verbatim>\<open>setTimeout(() => this.#cancelOidReply(oid, 'request timeout'), ...)\<close>\<close>

definition setTimeout :: "string \<Rightarrow> client \<Rightarrow> nat \<times> client" where
  "setTimeout k st =
     (timerSeq st, st\<lparr>timers := (timers st)(timerSeq st \<mapsto> k), timerSeq := Suc (timerSeq st)\<rparr>)"

text \<open>
  \<^verbatim>\<open>clearTimeout(this.#waitTimers[oid])\<close>: the timer that the map has for the oid is no
  longer live. For an oid without an own entry the argument is \<^verbatim>\<open>undefined\<close> or an
  inherited member, no timer, and \<^verbatim>\<open>clearTimeout\<close> does nothing.
\<close>

fun clearTimeout :: "nat option \<Rightarrow> client \<Rightarrow> client" where
  "clearTimeout None st = st"
| "clearTimeout (Some t) st = st\<lparr>timers := (timers st)(t := None)\<rparr>"

definition socketOpen :: "client \<Rightarrow> bool" where
  "socketOpen st = (socket st = Some OPEN)"

text \<open>The object \<^verbatim>\<open>{ oid, error, unexpectedError: true }\<close> of the two cancel paths.\<close>

definition cancelError :: "string \<Rightarrow> jsval \<Rightarrow> jsval" where
  "cancelError k err =
     Obj [(''oid'', Str k), (''error'', err), (''unexpectedError'', Bool True)]"

section \<open>The correlation registry\<close>

text \<open>
  A void method returns the exception it threw, if any, and the client afterwards.
  \<^verbatim>\<open>#handleOidReply\<close>: a reply whose oid reads as \<^verbatim>\<open>undefined\<close> in the registry
  is logged and dropped; otherwise the entry is removed, its timer cleared and the
  promise settled. An oid that is no own key but an inherited name does not read as
  \<^verbatim>\<open>undefined\<close>: what is read has no \<^verbatim>\<open>resolve\<close> and no \<^verbatim>\<open>reject\<close>, and the
  call of it throws (after the argument has been evaluated).
\<close>

definition handleOidReply :: "message \<Rightarrow> client \<Rightarrow> jsval option \<times> client" where
  "handleOidReply m st =
     (case map_of (waitForResp st) (propKey (oid m)) of
        None \<Rightarrow>
          (if inherited (propKey (oid m))
           then (let st2 = clearTimeout (waitTimers st (propKey (oid m))) st
                 in if ok m = Some ''ok''
                    then (Some (TypeErr ''p.resolve is not a function''), st2)
                    else (case getProp (data m) ''error'' of
                            Inl ex \<Rightarrow> (Some ex, st2)
                          | Inr v \<Rightarrow> (Some (TypeErr ''p.reject is not a function''), st2)))
           else (None, log (LogNoHandler m (map fst (waitForResp st))) st))
      | Some p \<Rightarrow>
          (let st1 = st\<lparr>waitForResp := AList.delete (propKey (oid m)) (waitForResp st)\<rparr>;
               st2 = clearTimeout (waitTimers st1 (propKey (oid m))) st1
           in if ok m = Some ''ok'' then (None, settle p (Resolved (data m)) st2)
              else (case getProp (data m) ''error'' of
                      Inl ex \<Rightarrow> (Some ex, st2)
                    | Inr v \<Rightarrow> (None, settle p (Rejected v) st2))))"

text \<open>
  The body of the \<^verbatim>\<open>forEach\<close> of \<^verbatim>\<open>#cancelAllOidReplies\<close> for one key, and the
  loop over \<^verbatim>\<open>Object.keys(this.#waitForResp)\<close>, which stops at the first exception.
\<close>

definition cancelAllStep :: "jsval \<Rightarrow> string \<Rightarrow> client \<Rightarrow> jsval option \<times> client" where
  "cancelAllStep err k st =
     (case map_of (waitForResp st) k of
        None \<Rightarrow> (Some (TypeErr ''Cannot read properties of undefined''), st)
      | Some p \<Rightarrow>
          (let st1 = settle p (Rejected (cancelError k (js_or err (Str ''connection closed'')))) st;
               st2 = st1\<lparr>waitForResp := AList.delete k (waitForResp st1)\<rparr>
           in (None, clearTimeout (waitTimers st2 k) st2)))"

fun cancelAllLoop :: "jsval \<Rightarrow> string list \<Rightarrow> client \<Rightarrow> jsval option \<times> client" where
  "cancelAllLoop err [] st = (None, st)"
| "cancelAllLoop err (k # ks) st =
     (case cancelAllStep err k st of
        (Some ex, st') \<Rightarrow> (Some ex, st')
      | (None, st') \<Rightarrow> cancelAllLoop err ks st')"

definition cancelAllOidReplies :: "jsval \<Rightarrow> client \<Rightarrow> jsval option \<times> client" where
  "cancelAllOidReplies err st = cancelAllLoop err (remdups (map fst (waitForResp st))) st"

text \<open>
  \<^verbatim>\<open>#cancelOidReply\<close>, the callback of a request's timer, for the oid of the request
  (one that \<^verbatim>\<open>#callRequest\<close> made: it starts with a digit and is no inherited name).
\<close>

definition cancelOidReply :: "string \<Rightarrow> jsval \<Rightarrow> client \<Rightarrow> client" where
  "cancelOidReply k reason st =
     (let st1 = (case map_of (waitForResp st) k of
                   None \<Rightarrow> st
                 | Some p \<Rightarrow>
                     (let st' = settle p (Rejected (cancelError k reason)) st
                      in st'\<lparr>waitForResp := AList.delete k (waitForResp st')\<rparr>))
      in (case waitTimers st1 k of
            None \<Rightarrow> st1
          | Some t \<Rightarrow> clearTimeout (Some t) st1))"

text \<open>A live timer fires: it is no longer live, and its callback runs.\<close>

definition timerFire :: "nat \<Rightarrow> client \<Rightarrow> client" where
  "timerFire t st =
     (case timers st t of
        None \<Rightarrow> st
      | Some k \<Rightarrow> cancelOidReply k (Str ''request timeout'') (st\<lparr>timers := (timers st)(t := None)\<rparr>))"

section \<open>Requests\<close>

text \<open>
  What the transport does with the callback of \<^verbatim>\<open>send\<close>: it calls it before
  \<^verbatim>\<open>send\<close> returns, with its argument (\<open>Reported\<close>), or later (\<open>Deferred\<close>).
\<close>

datatype send_report = Deferred | Reported jsval

text \<open>The callback that \<^verbatim>\<open>#callRequest\<close> gives to \<^verbatim>\<open>send\<close>.\<close>

definition sendCallback :: "string \<Rightarrow> jsval \<Rightarrow> client \<Rightarrow> jsval option \<times> client" where
  "sendCallback k err st =
     (if truthy err
      then (let st1 = st\<lparr>waitForResp := AList.delete k (waitForResp st)\<rparr>
            in (case map_of (waitForResp st1) k of
                  None \<Rightarrow> (Some (TypeErr ''Cannot read properties of undefined''), st1)
                | Some p \<Rightarrow> (None, settle p (Rejected err) st1)))
      else (None, st))"

text \<open>The default \<^verbatim>\<open>params = {}\<close> of the three call methods.\<close>

definition defaultParams :: "jsval \<Rightarrow> jsval" where
  "defaultParams params = (if params = Undefined then Obj [] else params)"

definition newOid :: "nat \<Rightarrow> nat \<Rightarrow> string \<Rightarrow> string" where
  "newOid now seq method = showNat now @ showNat seq @ ''_'' @ method"

text \<open>
  \<^verbatim>\<open>#callRequest\<close>, an async function: \<open>Inl ex\<close> is the rejection of the returned
  promise by a thrown exception, \<open>Inr p\<close> the promise of the defer it returns.
  \<open>now\<close> is \<^verbatim>\<open>Date.now()\<close>.
\<close>

definition callRequest ::
  "string \<Rightarrow> jsval \<Rightarrow> nat \<Rightarrow> send_report \<Rightarrow> client \<Rightarrow> (jsval + nat) \<times> client" where
  "callRequest method params now rep st =
     (if \<not> socketOpen st then (Inl (Err ''Not connected''), st)
      else
        (let st1 = st\<lparr>oidSeqId := Suc (oidSeqId st)\<rparr>;
             k = newOid now (oidSeqId st1) method;
             (p, st2) = getDefer st1;
             st3 = st2\<lparr>waitForResp := AList.update k p (waitForResp st2)\<rparr>;
             (t, st4) = setTimeout k st3;
             st5 = st4\<lparr>waitTimers := (waitTimers st4)(k \<mapsto> t)\<rparr>;
             msg = Request method (defaultParams params) k;
             st6 = log (LogSending msg) st5;
             st7 = st6\<lparr>sent := sent st6 @ [msg]\<rparr>;
             (thrown, st8) = (case rep of
                                Deferred \<Rightarrow> (None, st7)
                              | Reported err \<Rightarrow> sendCallback k err st7)
         in (case thrown of
               Some ex \<Rightarrow> (Inl ex, st8)
             | None \<Rightarrow>
                 (case map_of (waitForResp st8) k of
                    None \<Rightarrow> (Inl (TypeErr ''Cannot read properties of undefined''), st8)
                  | Some q \<Rightarrow> (Inr q, st8)))))"

definition callPublic ::
  "string \<Rightarrow> jsval \<Rightarrow> nat \<Rightarrow> send_report \<Rightarrow> client \<Rightarrow> (jsval + nat) \<times> client" where
  "callPublic method params now rep st =
     (if \<not> isPublicClient st
      then (Inl (Err ''Attempt to call public method on private client''), st)
      else callRequest method (defaultParams params) now rep st)"

definition callPrivate ::
  "string \<Rightarrow> jsval \<Rightarrow> nat \<Rightarrow> send_report \<Rightarrow> client \<Rightarrow> (jsval + nat) \<times> client" where
  "callPrivate method params now rep st =
     (if isPublicClient st
      then (Inl (Err ''Attempt to call private method on public client''), st)
      else if \<not> isAuthorized st then (Inl (Err ''Not authorized''), st)
      else callRequest method (defaultParams params) now rep st)"

section \<open>The session\<close>

text \<open>
  The constructor. \<open>args\<close> is \<^verbatim>\<open>arguments\<close>; \<^verbatim>\<open>Object.assign\<close> copies the own
  properties of an object (a string has only index properties, another primitive none),
  and \<^verbatim>\<open>host.endsWith\<close> throws unless \<^verbatim>\<open>host\<close> is a string.
\<close>

definition arg :: "jsval list \<Rightarrow> nat \<Rightarrow> jsval" where
  "arg args i = (if i < length args then args ! i else Undefined)"

definition assigned :: "jsval \<Rightarrow> string \<Rightarrow> jsval \<Rightarrow> jsval" where
  "assigned src k dflt =
     (case src of
        Obj kvs \<Rightarrow> (case map_of kvs k of None \<Rightarrow> dflt | Some v \<Rightarrow> v)
      | _ \<Rightarrow> dflt)"

definition endsWithSlash :: "string \<Rightarrow> bool" where
  "endsWithSlash s = (s \<noteq> [] \<and> last s = CHR ''/'')"

definition constructor :: "jsval list \<Rightarrow> jsval + client" where
  "constructor args =
     (let options0 = (if arg args 2 = Undefined then Obj [] else arg args 2);
          pub = (length args = 1);
          options1 = (if pub then arg args 0 else options0)
      in (case assigned options1 ''host'' (Str ''wss://api.plus.cex.io/'') of
            Str h0 \<Rightarrow>
              (let h = (if endsWithSlash h0 then h0 else h0 @ ''/'');
                   u = assigned options1 ''apiUrl'' Undefined;
                   up = assigned options1 ''apiUrlPublic'' Undefined
               in Inr \<lparr>apiKey = arg args 0, apiSecret = arg args 1, oidSeqId = 0,
                       handlers = Map.empty, waitForResp = [], waitTimers = Map.empty,
                       isAuthorized = False, isPublicClient = pub,
                       opts = \<lparr>wsReplyTimeout = assigned options1 ''wsReplyTimeout'' (Num ''30000''),
                               rejectUnauthorized = assigned options1 ''rejectUnauthorized'' (Bool True),
                               host = h,
                               apiUrl = (if truthy u then u else Str (h @ ''ws'')),
                               apiUrlPublic = (if truthy up then up else Str (h @ ''ws-public''))\<rparr>,
                       socket = None, promises = [], timers = Map.empty, timerSeq = 0,
                       sent = [], settles = [], logs = [], invoked = [], notified = []\<rparr>)
          | _ \<Rightarrow> Inl (TypeErr ''this.#options.host.endsWith is not a function'')))"

text \<open>
  \<^verbatim>\<open>connect\<close>: a new socket, the two internal handlers, and the promise it returns.
  \<open>thrown\<close> is what \<^verbatim>\<open>new WebSocket(endpoint, ...)\<close> throws, if anything (an address
  that is no valid URL): the executor of the promise ends there, so the promise is
  rejected and neither socket nor handlers are set. The listeners that \<^verbatim>\<open>connect\<close>
  puts on the socket are \<open>socketOnClose\<close> and \<open>socketOnError\<close> below, which close
  over that promise and the two callbacks.
\<close>

definition addHandler :: "string \<Rightarrow> handler \<Rightarrow> client \<Rightarrow> client" where
  "addHandler event cb st = st\<lparr>handlers := (handlers st)(event \<mapsto> cb)\<rparr>"

definition subscribe :: "string \<Rightarrow> nat \<Rightarrow> client \<Rightarrow> client" where
  "subscribe event cb st = addHandler event (HUser cb) st"

definition connect :: "jsval option \<Rightarrow> client \<Rightarrow> nat \<times> client" where
  "connect thrown st =
     (let (c, st1) = getDefer st;
          endpoint = (if isPublicClient st1 then apiUrlPublic (opts st1) else apiUrl (opts st1));
          st2 = log (LogConnecting endpoint) st1
      in (case thrown of
            Some ex \<Rightarrow> (c, settle c (Rejected ex) st2)
          | None \<Rightarrow>
              (let st3 = st2\<lparr>socket := Some CONNECTING\<rparr>;
                   st4 = addHandler ''disconnected'' HDisconnected st3;
                   st5 = addHandler ''connected'' (HConnected c) st4
               in (c, st5))))"

text \<open>The transport reaches the open state.\<close>

definition transportOpened :: "client \<Rightarrow> client" where
  "transportOpened st = (if socket st = Some CONNECTING then st\<lparr>socket := Some OPEN\<rparr> else st)"

definition notify :: "nat option \<Rightarrow> jsval \<Rightarrow> client \<Rightarrow> client" where
  "notify cb v st = (case cb of None \<Rightarrow> st | Some n \<Rightarrow> st\<lparr>notified := notified st @ [(n, v)]\<rparr>)"

definition socketOnClose :: "nat \<Rightarrow> nat option \<Rightarrow> jsval \<Rightarrow> client \<Rightarrow> jsval option \<times> client" where
  "socketOnClose c onClose err st =
     (case cancelAllOidReplies err (st\<lparr>socket := None, isAuthorized := False\<rparr>) of
        (Some ex, st') \<Rightarrow> (Some ex, st')
      | (None, st') \<Rightarrow> (None, notify onClose err (settle c (Rejected err) st')))"

definition socketOnError :: "nat \<Rightarrow> nat option \<Rightarrow> jsval \<Rightarrow> client \<Rightarrow> jsval option \<times> client" where
  "socketOnError c onError err st =
     (case cancelAllOidReplies err (st\<lparr>socket := None\<rparr>) of
        (Some ex, st') \<Rightarrow> (Some ex, st')
      | (None, st') \<Rightarrow> (None, notify onError err (settle c (Rejected err) st')))"

definition disconnect :: "client \<Rightarrow> client" where
  "disconnect st = (if socketOpen st then st\<lparr>socket := Some CLOSING\<rparr> else st)"

definition ping :: "client \<Rightarrow> jsval option \<times> client" where
  "ping st =
     (if \<not> socketOpen st then (Some (Err ''Not connected''), st)
      else (None, st\<lparr>sent := sent st @ [Ping]\<rparr>))"

section \<open>The authentication handshake\<close>

text \<open>
  \<^verbatim>\<open>`${Date.now() / 1000}`\<close> for \<^verbatim>\<open>Date.now()\<close> = \<open>now\<close> milliseconds: the seconds,
  then the milliseconds as a decimal fraction without trailing zeros. (For every value
  of \<^verbatim>\<open>Date.now()\<close>, at most 8640000000000000, that decimal is the shortest one that
  reads back as the quotient, which is what JavaScript prints.)
\<close>

definition tsString :: "nat \<Rightarrow> string" where
  "tsString now =
     (let r = now mod 1000
      in showNat (now div 1000) @
         (if r = 0 then []
          else if r mod 100 = 0 then [CHR ''.'', digit (r div 100)]
          else if r mod 10 = 0 then [CHR ''.'', digit (r div 100), digit (r div 10 mod 10)]
          else [CHR ''.'', digit (r div 100), digit (r div 10 mod 10), digit (r mod 10)]))"

text \<open>
  \<^verbatim>\<open>#createSignature\<close>: the template literal \<^verbatim>\<open>`${timestamp}${this.#apiKey}`\<close>
  first, which may throw, and then the keyed hash. \<open>hmac key msg\<close> stands for
  \<^verbatim>\<open>crypto.createHmac('sha256', key).update(msg).digest('hex')\<close>, which throws for a
  key that is no string.
\<close>

definition createSignature :: "(string \<Rightarrow> string \<Rightarrow> string) \<Rightarrow> nat \<Rightarrow> client \<Rightarrow> jsval + string" where
  "createSignature hmac now st =
     (case toStr (apiKey st) of
        Inl ex \<Rightarrow> Inl ex
      | Inr key \<Rightarrow>
          (let d = tsString now @ key
           in (case apiSecret st of
                 Str secret \<Rightarrow> Inr (hmac secret d)
               | _ \<Rightarrow> Inl (TypeErr ''The key argument must be of type string''))))"

text \<open>
  The promise \<open>a\<close> of \<^verbatim>\<open>#auth\<close> is awaited by the \<^verbatim>\<open>connected\<close> handler, which
  then resolves the promise \<open>c\<close> of \<^verbatim>\<open>connect\<close>, or rejects it with the error caught.
  So the first settlement of \<open>a\<close> is passed on to \<open>c\<close>.
\<close>

definition settleAwaited :: "nat \<Rightarrow> nat \<Rightarrow> outcome \<Rightarrow> client \<Rightarrow> client" where
  "settleAwaited a c oc st =
     (if outcomeOf st a = Pending
      then settle c (case oc of Resolved v \<Rightarrow> Resolved Undefined | _ \<Rightarrow> oc) (settle a oc st)
      else settle a oc st)"

text \<open>The callback that \<^verbatim>\<open>#auth\<close> gives to \<^verbatim>\<open>send\<close>.\<close>

definition authSendCallback :: "nat \<Rightarrow> nat \<Rightarrow> jsval \<Rightarrow> client \<Rightarrow> client" where
  "authSendCallback a c err st = (if truthy err then settleAwaited a c (Rejected err) st else st)"

text \<open>\<^verbatim>\<open>#auth\<close>, called from the \<^verbatim>\<open>connected\<close> handler of the \<^verbatim>\<open>connect\<close> with promise \<open>c\<close>.\<close>

definition auth ::
  "(string \<Rightarrow> string \<Rightarrow> string) \<Rightarrow> nat \<Rightarrow> send_report \<Rightarrow> nat \<Rightarrow> client \<Rightarrow> client" where
  "auth hmac now rep c st =
     (let (a, st1) = getDefer st
      in if \<not> socketOpen st1
         then settleAwaited a c (Rejected (Err ''Client is not connected'')) st1
         else
           (let st2 = addHandler ''auth'' (HAuth a c) st1
            in (case createSignature hmac now st2 of
                  Inl ex \<Rightarrow> settleAwaited a c (Rejected ex) st2
                | Inr sig \<Rightarrow>
                    (let st3 = st2\<lparr>sent := sent st2 @ [AuthRequest (apiKey st2) sig now]\<rparr>
                     in (case rep of
                           Deferred \<Rightarrow> st3
                         | Reported err \<Rightarrow> authSendCallback a c err st3)))))"

text \<open>
  The handler that \<^verbatim>\<open>#auth\<close> registers for the event \<^verbatim>\<open>auth\<close>. Reading
  \<^verbatim>\<open>authRes.data.ok\<close> throws when the frame has no data, and the template literal with
  \<^verbatim>\<open>authRes.data.error\<close> may throw: the handler then ends without settling anything.
\<close>

definition authHandler :: "nat \<Rightarrow> nat \<Rightarrow> message \<Rightarrow> client \<Rightarrow> jsval option \<times> client" where
  "authHandler a c authRes st =
     (case getProp (data authRes) ''ok'' of
        Inl ex \<Rightarrow> (Some ex, st)
      | Inr v \<Rightarrow>
          (if v = Str ''ok''
           then (None, settleAwaited a c (Resolved Undefined) (st\<lparr>isAuthorized := True\<rparr>))
           else (case getProp (data authRes) ''error'' of
                   Inl ex \<Rightarrow> (Some ex, st)
                 | Inr er \<Rightarrow>
                     (case toStr er of
                        Inl ex \<Rightarrow> (Some ex, st)
                      | Inr s \<Rightarrow>
                          (None, settleAwaited a c
                                   (Rejected (Err (''Authorization failure: '' @ s))) st)))))"

section \<open>Inbound routing\<close>

text \<open>
  A handler of the table is called, with a frame or (through \<^verbatim>\<open>toLocaleString\<close>, below)
  with no argument. The handler of \<^verbatim>\<open>auth\<close> reads \<^verbatim>\<open>authRes.data\<close> and throws without
  an argument; the two handlers of \<^verbatim>\<open>connect\<close> take none.
\<close>

definition invokeHandler ::
  "(string \<Rightarrow> string \<Rightarrow> string) \<Rightarrow> nat \<Rightarrow> send_report \<Rightarrow> handler \<Rightarrow> message option \<Rightarrow> client
     \<Rightarrow> jsval option \<times> client" where
  "invokeHandler hmac now rep h arg0 st =
     (case h of
        HDisconnected \<Rightarrow>
          cancelAllOidReplies (Str ''disconnected from server'') (st\<lparr>isAuthorized := False\<rparr>)
      | HConnected c \<Rightarrow>
          (if \<not> isPublicClient st then (None, auth hmac now rep c st)
           else (None, settle c (Resolved Undefined) st))
      | HAuth a c \<Rightarrow>
          (case arg0 of
             None \<Rightarrow> (Some (TypeErr ''Cannot read properties of undefined''), st)
           | Some m \<Rightarrow> authHandler a c m st)
      | HUser n \<Rightarrow> (None, st\<lparr>invoked := invoked st @ [(n, arg0)]\<rparr>))"

text \<open>
  \<^verbatim>\<open>this.#handlers[k](message)\<close> for an inherited name \<open>k\<close> without own entry.
  \<^verbatim>\<open>__proto__\<close> is no function, and the call throws; \<^verbatim>\<open>__defineGetter__\<close> and
  \<^verbatim>\<open>__defineSetter__\<close> throw for want of a function as second argument;
  \<^verbatim>\<open>hasOwnProperty\<close>, \<^verbatim>\<open>propertyIsEnumerable\<close>, \<^verbatim>\<open>__lookupGetter__\<close> and
  \<^verbatim>\<open>__lookupSetter__\<close> turn the frame into a property key, which throws when the frame has
  an own member \<^verbatim>\<open>toString\<close>; \<^verbatim>\<open>toLocaleString\<close> calls \<^verbatim>\<open>this.toString()\<close>, which is
  the handler of the event \<^verbatim>\<open>toString\<close> when there is one; \<^verbatim>\<open>constructor\<close>,
  \<^verbatim>\<open>toString\<close>, \<^verbatim>\<open>valueOf\<close> and \<^verbatim>\<open>isPrototypeOf\<close> return and change nothing.
\<close>

definition callInherited ::
  "(string \<Rightarrow> string \<Rightarrow> string) \<Rightarrow> nat \<Rightarrow> send_report \<Rightarrow> string \<Rightarrow> message \<Rightarrow> client
     \<Rightarrow> jsval option \<times> client" where
  "callInherited hmac now rep k m st =
     (if k = ''__proto__''
      then (Some (TypeErr ''this.#handlers[message.e] is not a function''), st)
      else if k = ''__defineGetter__'' \<or> k = ''__defineSetter__''
      then (Some (TypeErr ''Expecting function''), st)
      else if k = ''hasOwnProperty'' \<or> k = ''propertyIsEnumerable''
              \<or> k = ''__lookupGetter__'' \<or> k = ''__lookupSetter__''
      then (if ''toString'' \<in> fst ` set (others m)
            then (Some (TypeErr ''Cannot convert object to primitive value''), st)
            else (None, st))
      else if k = ''toLocaleString''
      then (case handlers st ''toString'' of
              None \<Rightarrow> (None, st)
            | Some h \<Rightarrow> invokeHandler hmac now rep h None st)
      else (None, st))"

text \<open>
  \<^verbatim>\<open>#handleMessage\<close>, for the frame that \<^verbatim>\<open>JSON.parse\<close> returned.
  \<^verbatim>\<open>this.#handlers[message.e]\<close> is an own handler, or an inherited member, which is
  truthy too, or \<^verbatim>\<open>undefined\<close>.
\<close>

definition handleMessage ::
  "(string \<Rightarrow> string \<Rightarrow> string) \<Rightarrow> nat \<Rightarrow> send_report \<Rightarrow> message \<Rightarrow> client
     \<Rightarrow> jsval option \<times> client" where
  "handleMessage hmac now rep m st =
     (let st1 = log (LogIncoming m) st
      in (case handlers st1 (propKey (e m)) of
            Some h \<Rightarrow> invokeHandler hmac now rep h (Some m) st1
          | None \<Rightarrow>
              (if inherited (propKey (e m)) then callInherited hmac now rep (propKey (e m)) m st1
               else if truthyField (oid m) then handleOidReply m st1
               else if e m = Some ''pong'' then (None, st1)
               else (None, log (LogIgnoring m) st1))))"
section \<open>Runs of the client\<close>

text \<open>
  What can happen to a client after its construction: a call of one of its methods, or
  one of the callbacks it handed to the socket, to a timer or to \<^verbatim>\<open>send\<close> being run.
\<close>

datatype op =
    OpConnect "jsval option"
  | OpTransportOpened
  | OpMessage message nat send_report
  | OpSocketClose nat "nat option" jsval
  | OpSocketError nat "nat option" jsval
  | OpTimerFire nat
  | OpCallPublic string jsval nat send_report
  | OpCallPrivate string jsval nat send_report
  | OpSendCallback string jsval
  | OpAuthSendCallback nat nat jsval
  | OpSubscribe string nat
  | OpDisconnect
  | OpPing

fun step :: "(string \<Rightarrow> string \<Rightarrow> string) \<Rightarrow> client \<Rightarrow> op \<Rightarrow> client" where
  "step hmac st (OpConnect thrown) = snd (connect thrown st)"
| "step hmac st OpTransportOpened = transportOpened st"
| "step hmac st (OpMessage m now rep) = snd (handleMessage hmac now rep m st)"
| "step hmac st (OpSocketClose c cb err) = snd (socketOnClose c cb err st)"
| "step hmac st (OpSocketError c cb err) = snd (socketOnError c cb err st)"
| "step hmac st (OpTimerFire t) = timerFire t st"
| "step hmac st (OpCallPublic method params now rep) = snd (callPublic method params now rep st)"
| "step hmac st (OpCallPrivate method params now rep) = snd (callPrivate method params now rep st)"
| "step hmac st (OpSendCallback k err) = snd (sendCallback k err st)"
| "step hmac st (OpAuthSendCallback a c err) = authSendCallback a c err st"
| "step hmac st (OpSubscribe event cb) = subscribe event cb st"
| "step hmac st OpDisconnect = disconnect st"
| "step hmac st OpPing = snd (ping st)"

definition run :: "(string \<Rightarrow> string \<Rightarrow> string) \<Rightarrow> client \<Rightarrow> op list \<Rightarrow> client" where
  "run hmac st ops = foldl (step hmac) st ops"



text \<open>
  The registry is well formed: no oid twice, no defer under two oids, every defer a
  promise of the store.
\<close>

definition wellFormed :: "client \<Rightarrow> bool" where
  "wellFormed st \<longleftrightarrow>
     distinct (map fst (waitForResp st)) \<and> distinct (map snd (waitForResp st)) \<and>
     list_all (\<lambda>kv. snd kv < length (promises st)) (waitForResp st)"

text \<open>The reason that \<^verbatim>\<open>#cancelAllOidReplies\<close> puts into its rejections.\<close>

definition closeReason :: "jsval \<Rightarrow> jsval" where
  "closeReason err = js_or err (Str ''connection closed'')"

text \<open>
  What a close or error of the transport leaves behind, for the client \<open>st\<close> before
  and \<open>st'\<close> after, the argument \<open>err\<close> of the event and the promise \<open>c\<close> of
  \<^verbatim>\<open>connect\<close>: an empty registry; one \<^verbatim>\<open>reject\<close> call for each entry, in order, with
  the object \<^verbatim>\<open>{oid, error, unexpectedError: true}\<close> of its oid and of the reason (\<open>err\<close>,
  or \<^verbatim>\<open>'connection closed'\<close> for a falsy \<open>err\<close>), and then the rejection of \<open>c\<close>; each
  promise that was pending rejected with that object; no timer of an entry live; no
  socket.
\<close>

definition cancelledAll :: "client \<Rightarrow> jsval \<Rightarrow> nat \<Rightarrow> client \<Rightarrow> bool" where
  "cancelledAll st err c st' \<longleftrightarrow>
     waitForResp st' = [] \<and>
     settles st' = settles st @
        map (\<lambda>kv. (snd kv, Rejected (Obj [(''oid'', Str (fst kv)),
                      (''error'', if truthy err then err else Str ''connection closed''),
                      (''unexpectedError'', Bool True)])))
          (waitForResp st) @
        [(c, Rejected err)] \<and>
     list_all (\<lambda>kv. outcomeOf st (snd kv) = Pending \<longrightarrow>
                  outcomeOf st' (snd kv) = Rejected (Obj [(''oid'', Str (fst kv)),
                      (''error'', if truthy err then err else Str ''connection closed''),
                      (''unexpectedError'', Bool True)]))
       (waitForResp st) \<and>
     list_all (\<lambda>kv. case waitTimers st (fst kv) of None \<Rightarrow> True | Some t \<Rightarrow> timers st' t = None)
       (waitForResp st) \<and>
     socket st' = None"

section \<open>Example clients\<close>

text \<open>
  A public client whose transport is open, and the same with one request in flight; a
  private client whose transport is open, the same after a successful handshake (with a
  stand-in for the keyed hash), and that one after a socket error and a new
  \<^verbatim>\<open>connect\<close> whose transport is open.
\<close>

definition examplePublic :: client where
  "examplePublic = transportOpened (snd (connect None (projr (constructor [Obj []]))))"

definition examplePending :: client where
  "examplePending = snd (callPublic ''get_ticker'' (Obj []) 5 Deferred examplePublic)"

definition exampleHmac :: "string \<Rightarrow> string \<Rightarrow> string" where
  "exampleHmac key msg = key @ msg"

definition exampleAuthOk :: message where
  "exampleAuthOk = \<lparr>e = Some ''auth'', oid = Some ''auth'', ok = Some ''ok'',
                     data = Obj [(''ok'', Str ''ok'')], others = []\<rparr>"

definition exampleConnected :: message where
  "exampleConnected =
     \<lparr>e = Some ''connected'', oid = None, ok = None, data = Undefined, others = []\<rparr>"

definition examplePrivateOpen :: client where
  "examplePrivateOpen =
     transportOpened (snd (connect None (projr (constructor [Str ''key'', Str ''secret'']))))"

definition examplePrivate :: client where
  "examplePrivate =
     run exampleHmac (projr (constructor [Str ''key'', Str ''secret'']))
       [OpConnect None, OpTransportOpened, OpMessage exampleConnected 7 Deferred,
        OpMessage exampleAuthOk 8 Deferred]"

section \<open>Basic facts\<close>

lemmas ex_defs = examplePublic_def examplePending_def examplePrivate_def exampleHmac_def
  examplePrivateOpen_def exampleAuthOk_def exampleConnected_def run_def
  constructor_def arg_def assigned_def connect_def getDefer_def
  log_def addHandler_def transportOpened_def socketOpen_def Let_def endsWithSlash_def
  callPublic_def callPrivate_def callRequest_def defaultParams_def setTimeout_def
  handleMessage_def invokeHandler_def
  auth_def authHandler_def createSignature_def settleAwaited_def settle_def outcomeOf_def

text \<open>An oid that \<^verbatim>\<open>#callRequest\<close> makes starts with a digit: it is no inherited name.\<close>

lemma digit_in: "digit d \<in> set ''0123456789''"
  unfolding digit_def by (rule nth_mem) simp

lemma showNat_hd: "\<exists>ch r. ch \<in> set ''0123456789'' \<and> showNat n = ch # r"
proof (induction n rule: showNat.induct)
  case (1 n)
  show ?case
  proof (cases "n < 10")
    case True
    then show ?thesis using digit_in [of n] by (subst showNat.simps) auto
  next
    case False
    with 1 obtain ch r where "ch \<in> set ''0123456789''" "showNat (n div 10) = ch # r" by blast
    then show ?thesis using False by (subst showNat.simps) auto
  qed
qed

lemma newOid_not_inherited: "\<not> inherited (newOid now seq name)"
proof -
  obtain ch r where d: "ch \<in> set ''0123456789''" and eq: "showNat now = ch # r"
    using showNat_hd by blast
  show ?thesis
    using d unfolding newOid_def eq inherited_def protoFunctions_def by auto
qed

lemma map_of_delete_same: "map_of (AList.delete k al) k = None"
  by (simp add: delete_conv')

lemma clearTimeout_fields [simp]:
  "waitForResp (clearTimeout x st) = waitForResp st"
  "waitTimers (clearTimeout x st) = waitTimers st"
  "promises (clearTimeout x st) = promises st"
  "settles (clearTimeout x st) = settles st"
  "sent (clearTimeout x st) = sent st"
  "logs (clearTimeout x st) = logs st"
  "socket (clearTimeout x st) = socket st"
  "isAuthorized (clearTimeout x st) = isAuthorized st"
  "isPublicClient (clearTimeout x st) = isPublicClient st"
  "handlers (clearTimeout x st) = handlers st"
  "timerSeq (clearTimeout x st) = timerSeq st"
  "oidSeqId (clearTimeout x st) = oidSeqId st"
  by (cases x; simp)+

lemma clearTimeout_timers:
  "timers (clearTimeout x st) t = (if x = Some t then None else timers st t)"
  by (cases x) auto

lemma outcomeOf_clearTimeout [simp]: "outcomeOf (clearTimeout x st) q = outcomeOf st q"
  by (simp add: outcomeOf_def)

lemma settle_fields [simp]:
  "waitForResp (settle p oc st) = waitForResp st"
  "waitTimers (settle p oc st) = waitTimers st"
  "timers (settle p oc st) = timers st"
  "settles (settle p oc st) = settles st @ [(p, oc)]"
  "sent (settle p oc st) = sent st"
  "logs (settle p oc st) = logs st"
  "socket (settle p oc st) = socket st"
  "isAuthorized (settle p oc st) = isAuthorized st"
  "isPublicClient (settle p oc st) = isPublicClient st"
  "handlers (settle p oc st) = handlers st"
  "timerSeq (settle p oc st) = timerSeq st"
  "oidSeqId (settle p oc st) = oidSeqId st"
  "length (promises (settle p oc st)) = length (promises st)"
  by (simp_all add: settle_def)

lemma outcomeOf_settle:
  "outcomeOf (settle p oc st) q =
     (if q = p \<and> p < length (promises st) \<and> outcomeOf st p = Pending then oc else outcomeOf st q)"
  by (auto simp: outcomeOf_def settle_def)

lemma outcomeOf_upd [simp]:
  "outcomeOf (st\<lparr>waitForResp := x\<rparr>) q = outcomeOf st q"
  "outcomeOf (st\<lparr>timers := y\<rparr>) q = outcomeOf st q"
  "outcomeOf (st\<lparr>logs := z\<rparr>) q = outcomeOf st q"
  "outcomeOf (st\<lparr>socket := s\<rparr>) q = outcomeOf st q"
  "outcomeOf (st\<lparr>isAuthorized := b\<rparr>) q = outcomeOf st q"
  by (simp_all add: outcomeOf_def)

lemma newOid_example: "newOid 5 (Suc 0) ''get_ticker'' = ''51_get_ticker''"
  by (simp add: newOid_def showNat.simps digit_def)

lemma examplePublic_fields:
  "socketOpen examplePublic" "isPublicClient examplePublic"
  "timerSeq examplePublic = 0" "oidSeqId examplePublic = 0"
  "promises examplePublic = [Pending]" "waitForResp examplePublic = []"
  "sent examplePublic = []" "\<not> isAuthorized examplePublic"
  by (simp_all add: ex_defs)

lemma examplePending_fields:
  "waitForResp examplePending = [(''51_get_ticker'', Suc 0)]"
  "timers examplePending 0 = Some ''51_get_ticker''"
  "waitTimers examplePending ''51_get_ticker'' = Some 0"
  "promises examplePending = [Pending, Pending]"
  "settles examplePending = []"
  "outcomeOf examplePending (Suc 0) = Pending"
  "sent examplePending = [Request ''get_ticker'' (Obj []) ''51_get_ticker'']"
  by (simp_all add: ex_defs newOid_example)

lemma callPublic_default_params:
  "sent (snd (callPublic ''get_ticker'' Undefined 5 Deferred examplePublic)) =
     [Request ''get_ticker'' (Obj []) ''51_get_ticker'']"
  by (simp add: ex_defs defaultParams_def newOid_example)

lemma examplePrivateOpen_fields:
  "socketOpen examplePrivateOpen" "apiSecret examplePrivateOpen = Str ''secret''"
  "apiKey examplePrivateOpen = Str ''key''"
  "promises examplePrivateOpen = [Pending]" "sent examplePrivateOpen = []"
  "\<not> isAuthorized examplePrivateOpen" "\<not> isPublicClient examplePrivateOpen"
  by (simp_all add: ex_defs)

lemma examplePrivate_fields:
  "isAuthorized examplePrivate" "socket examplePrivate = Some OPEN"
  "\<not> isPublicClient examplePrivate" "waitForResp examplePrivate = []"
  "sent examplePrivate = [AuthRequest (Str ''key'') (exampleHmac ''secret'' (tsString 7 @ ''key'')) 7]"
  by (simp_all add: ex_defs)

section \<open>A send that fails\<close>

text \<open>
  C1. When the callback of \<^verbatim>\<open>send\<close> is run with an error before \<^verbatim>\<open>send\<close>
  returns, \<^verbatim>\<open>#callRequest\<close> deletes the registry entry and then reads it again to
  reject it: a \<^verbatim>\<open>TypeError\<close> is thrown instead. The promise of the call is never
  rejected (no \<^verbatim>\<open>reject\<close> is called at all), the caller gets the \<^verbatim>\<open>TypeError\<close>
  and not the send error, and the timer of the call stays live; only the registry entry
  is gone. The callback does the same whenever it is run with an error: it removes the
  entry, throws, and touches neither promise nor timer.
\<close>

theorem callRequest_send_failure:
  assumes "socketOpen st" and "truthy err"
    and "callRequest method params now (Reported err) st = (r, st')"
  shows "r = Inl (TypeErr ''Cannot read properties of undefined'')
       \<and> outcomeOf st' (length (promises st)) = Pending
       \<and> settles st' = settles st
       \<and> map_of (waitForResp st') (newOid now (Suc (oidSeqId st)) method) = None
       \<and> waitTimers st' (newOid now (Suc (oidSeqId st)) method) = Some (timerSeq st)
       \<and> timers st' (timerSeq st) = Some (newOid now (Suc (oidSeqId st)) method)
       \<and> sendCallback k err st0 =
           (Some (TypeErr ''Cannot read properties of undefined''),
            st0\<lparr>waitForResp := AList.delete k (waitForResp st0)\<rparr>)"
proof -
  have cb: "sendCallback k err st0 =
           (Some (TypeErr ''Cannot read properties of undefined''),
            st0\<lparr>waitForResp := AList.delete k (waitForResp st0)\<rparr>)"
    using assms(2) by (simp add: sendCallback_def Let_def map_of_delete_same)
  have call: "r = Inl (TypeErr ''Cannot read properties of undefined'')
       \<and> outcomeOf st' (length (promises st)) = Pending
       \<and> settles st' = settles st
       \<and> map_of (waitForResp st') (newOid now (Suc (oidSeqId st)) method) = None
       \<and> waitTimers st' (newOid now (Suc (oidSeqId st)) method) = Some (timerSeq st)
       \<and> timers st' (timerSeq st) = Some (newOid now (Suc (oidSeqId st)) method)"
    using assms
    by (auto simp add: callRequest_def getDefer_def setTimeout_def log_def sendCallback_def Let_def
        socketOpen_def map_of_delete_same outcomeOf_def)
  show ?thesis using cb call by simp
qed

theorem callRequest_send_failure_witness:
  "socketOpen examplePublic \<and> truthy (Err ''write EPIPE'')
   \<and> fst (callRequest ''get_ticker'' (Obj []) 5 (Reported (Err ''write EPIPE'')) examplePublic)
     = Inl (TypeErr ''Cannot read properties of undefined'')
   \<and> outcomeOf (snd (callRequest ''get_ticker'' (Obj []) 5 (Reported (Err ''write EPIPE''))
        examplePublic)) 1 = Pending
   \<and> timers (snd (callRequest ''get_ticker'' (Obj []) 5 (Reported (Err ''write EPIPE''))
        examplePublic)) 0 = Some (newOid 5 1 ''get_ticker'')"
proof -
  have o: "socketOpen examplePublic" by (rule examplePublic_fields)
  have t: "truthy (Err ''write EPIPE'')" by simp
  show ?thesis
    using callRequest_send_failure [OF o t surjective_pairing] o
    by (simp add: examplePublic_fields)
qed

section \<open>Timeouts\<close>

text \<open>
  C2. When the timer of a call fires while the call is still in the registry with its
  promise pending, the promise is rejected, by one \<^verbatim>\<open>reject\<close> call, with the object
  \<^verbatim>\<open>{oid, error: 'request timeout', unexpectedError: true}\<close> that carries the oid of the
  call and the reason; the oid is no longer in the registry, and the timer is gone. A
  reply that arrives for that oid afterwards is logged and dropped: it throws nothing
  and settles nothing. The oid of a call is one that \<^verbatim>\<open>#callRequest\<close> made, which is
  never an inherited name.
\<close>

theorem timeout_rejects:
  assumes "timers st t = Some k" and "map_of (waitForResp st) k = Some p"
    and "p < length (promises st)" and "outcomeOf st p = Pending"
    and "\<not> inherited k"
    and "st' = timerFire t st" and "oid m = Some k"
  shows "outcomeOf st' p =
           Rejected (Obj [(''oid'', Str k), (''error'', Str ''request timeout''),
                          (''unexpectedError'', Bool True)])
       \<and> settles st' = settles st @
           [(p, Rejected (Obj [(''oid'', Str k), (''error'', Str ''request timeout''),
                               (''unexpectedError'', Bool True)]))]
       \<and> map_of (waitForResp st') k = None
       \<and> timers st' t = None
       \<and> handleOidReply m st' =
           (None, st'\<lparr>logs := logs st' @ [LogNoHandler m (map fst (waitForResp st'))]\<rparr>)
       \<and> \<not> inherited (newOid now seq name)"
proof -
  let ?rej = "Rejected (Obj [(''oid'', Str k), (''error'', Str ''request timeout''),
                          (''unexpectedError'', Bool True)])"
  let ?st0 = "st\<lparr>timers := (timers st)(t := None)\<rparr>"
  let ?st1 = "(settle p ?rej ?st0)\<lparr>waitForResp := AList.delete k (waitForResp st)\<rparr>"
  have fire: "st' = (case waitTimers ?st1 k of None \<Rightarrow> ?st1 | Some u \<Rightarrow> clearTimeout (Some u) ?st1)"
    using assms(1,2,6) by (simp add: timerFire_def cancelOidReply_def cancelError_def Let_def)
  have a: "outcomeOf st' p = ?rej"
    using assms(3,4) unfolding fire
    by (auto simp: outcomeOf_settle split: option.splits)
  have b: "settles st' = settles st @ [(p, ?rej)]"
    unfolding fire by (simp split: option.splits)
  have c: "map_of (waitForResp st') k = None"
    unfolding fire by (simp add: map_of_delete_same split: option.splits)
  have d: "timers st' t = None"
    unfolding fire by (simp split: option.splits)
  have e: "handleOidReply m st' =
      (None, st'\<lparr>logs := logs st' @ [LogNoHandler m (map fst (waitForResp st'))]\<rparr>)"
    using c assms(5,7) by (simp add: handleOidReply_def log_def)
  show ?thesis using a b c d e newOid_not_inherited by simp
qed

theorem timeout_rejects_witness:
  "timers examplePending 0 = Some ''51_get_ticker''
   \<and> map_of (waitForResp examplePending) ''51_get_ticker'' = Some 1
   \<and> outcomeOf examplePending 1 = Pending
   \<and> \<not> inherited ''51_get_ticker''
   \<and> newOid 5 1 ''get_ticker'' = ''51_get_ticker''
   \<and> outcomeOf (timerFire 0 examplePending) 1
       = Rejected (Obj [(''oid'', Str ''51_get_ticker''), (''error'', Str ''request timeout''),
                        (''unexpectedError'', Bool True)])
   \<and> waitForResp (timerFire 0 examplePending) = []
   \<and> fst (handleOidReply
         \<lparr>e = None, oid = Some ''51_get_ticker'', ok = Some ''ok'', data = Num ''1'', others = []\<rparr>
         (timerFire 0 examplePending)) = None
   \<and> settles (snd (handleOidReply
         \<lparr>e = None, oid = Some ''51_get_ticker'', ok = Some ''ok'', data = Num ''1'', others = []\<rparr>
         (timerFire 0 examplePending)))
       = [(1, Rejected (Obj [(''oid'', Str ''51_get_ticker''), (''error'', Str ''request timeout''),
                             (''unexpectedError'', Bool True)]))]"
proof -
  let ?m = "\<lparr>e = None, oid = Some ''51_get_ticker'', ok = Some ''ok'', data = Num ''1'', others = []\<rparr>"
  have h1: "timers examplePending 0 = Some ''51_get_ticker''"
    by (simp add: examplePending_fields)
  have h2: "map_of (waitForResp examplePending) ''51_get_ticker'' = Some 1"
    by (simp add: examplePending_fields)
  have h3: "1 < length (promises examplePending)" by (simp add: examplePending_fields)
  have h4: "outcomeOf examplePending 1 = Pending"
    by (simp add: examplePending_fields)
  have h5: "\<not> inherited ''51_get_ticker''" by (simp add: inherited_def protoFunctions_def)
  have h7: "oid ?m = Some ''51_get_ticker''" by simp
  have n: "newOid 5 1 ''get_ticker'' = ''51_get_ticker''"
    using newOid_example by simp
  have w: "waitForResp (timerFire 0 examplePending) = []"
    by (simp add: timerFire_def cancelOidReply_def Let_def examplePending_fields)
  show ?thesis
    using timeout_rejects [OF h1 h2 h3 h4 h5 refl h7] h1 h2 h4 h5 n w
    by (simp add: examplePending_fields)
qed
section \<open>Bulk cancellation\<close>

lemma cancelAllStep_present:
  "map_of (waitForResp st) k = Some p \<Longrightarrow>
   cancelAllStep err k st =
     (None, clearTimeout (waitTimers st k)
        ((settle p (Rejected (cancelError k (closeReason err))) st)
           \<lparr>waitForResp := AList.delete k (waitForResp st)\<rparr>))"
  by (simp add: cancelAllStep_def settle_def Let_def closeReason_def)

lemma cancelAllStep_settled:
  "outcomeOf st q \<noteq> Pending \<Longrightarrow> outcomeOf (snd (cancelAllStep err k st)) q = outcomeOf st q"
  by (auto simp: cancelAllStep_def Let_def outcomeOf_settle split: option.splits)

lemma cancelAllLoop_settled:
  "outcomeOf st q \<noteq> Pending \<Longrightarrow> outcomeOf (snd (cancelAllLoop err ks st)) q = outcomeOf st q"
proof (induction ks arbitrary: st)
  case Nil
  then show ?case by simp
next
  case (Cons k ks)
  obtain r st1 where s: "cancelAllStep err k st = (r, st1)" by (cases "cancelAllStep err k st")
  have o: "outcomeOf st1 q = outcomeOf st q"
    using cancelAllStep_settled [OF Cons.prems, of err k] s by simp
  show ?case
  proof (cases r)
    case None
    then show ?thesis using s o Cons.IH [of st1] Cons.prems by simp
  next
    case (Some ex)
    then show ?thesis using s o by simp
  qed
qed

lemma cancelAllLoop_ok:
  assumes "distinct ks" "\<forall>k\<in>set ks. map_of (waitForResp st) k \<noteq> None"
  shows "\<exists>st'. cancelAllLoop err ks st = (None, st')
     \<and> waitForResp st' = filter (\<lambda>kv. fst kv \<notin> set ks) (waitForResp st)
     \<and> settles st' = settles st @
          map (\<lambda>k. (the (map_of (waitForResp st) k), Rejected (cancelError k (closeReason err)))) ks
     \<and> waitTimers st' = waitTimers st
     \<and> (\<forall>t. timers st' t = (if \<exists>k\<in>set ks. waitTimers st k = Some t then None else timers st t))
     \<and> sent st' = sent st \<and> logs st' = logs st \<and> socket st' = socket st
     \<and> isAuthorized st' = isAuthorized st \<and> handlers st' = handlers st
     \<and> length (promises st') = length (promises st)"
  using assms
proof (induction ks arbitrary: st)
  case Nil
  then show ?case by simp
next
  case (Cons k ks)
  from Cons.prems obtain p where p: "map_of (waitForResp st) k = Some p" by auto
  let ?st1 = "clearTimeout (waitTimers st k)
        ((settle p (Rejected (cancelError k (closeReason err))) st)
           \<lparr>waitForResp := AList.delete k (waitForResp st)\<rparr>)"
  have step: "cancelAllStep err k st = (None, ?st1)" by (rule cancelAllStep_present [OF p])
  have d: "distinct ks" and nk: "k \<notin> set ks" using Cons.prems by auto
  have pres: "\<forall>k'\<in>set ks. map_of (waitForResp ?st1) k' \<noteq> None"
    using Cons.prems nk by (auto simp: delete_conv')
  from Cons.IH [OF d pres] obtain st' where
    st': "cancelAllLoop err ks ?st1 = (None, st')"
     "waitForResp st' = filter (\<lambda>kv. fst kv \<notin> set ks) (waitForResp ?st1)"
     "settles st' = settles ?st1 @
          map (\<lambda>k. (the (map_of (waitForResp ?st1) k), Rejected (cancelError k (closeReason err)))) ks"
     "waitTimers st' = waitTimers ?st1"
     "\<forall>t. timers st' t = (if \<exists>k\<in>set ks. waitTimers ?st1 k = Some t then None else timers ?st1 t)"
     "sent st' = sent ?st1" "logs st' = logs ?st1" "socket st' = socket ?st1"
     "isAuthorized st' = isAuthorized ?st1" "handlers st' = handlers ?st1"
     "length (promises st') = length (promises ?st1)"
    by blast
  have m: "map (\<lambda>k. (the (map_of (waitForResp ?st1) k), Rejected (cancelError k (closeReason err)))) ks
         = map (\<lambda>k. (the (map_of (waitForResp st) k), Rejected (cancelError k (closeReason err)))) ks"
    using nk by (auto simp: delete_conv')
  have f: "filter (\<lambda>kv. fst kv \<notin> set ks) (AList.delete k (waitForResp st))
         = filter (\<lambda>kv. fst kv \<notin> set (k # ks)) (waitForResp st)"
    by (auto simp: AList.delete_eq intro!: filter_cong)
  show ?case
    apply (rule exI [of _ st'])
    using st' step p m f
    by (auto simp: clearTimeout_timers)
qed

lemma cancelAllLoop_outcome:
  assumes "distinct ks" and "\<forall>k\<in>set ks. map_of (waitForResp st) k \<noteq> None"
    and "k \<in> set ks" and "map_of (waitForResp st) k = Some p"
    and "p < length (promises st)" and "outcomeOf st p = Pending"
    and "\<forall>k'\<in>set ks. map_of (waitForResp st) k' = Some p \<longrightarrow> k' = k"
  shows "outcomeOf (snd (cancelAllLoop err ks st)) p = Rejected (cancelError k (closeReason err))"
  using assms
proof (induction ks arbitrary: st)
  case Nil
  then show ?case by simp
next
  case (Cons k0 ks)
  from Cons.prems(2) obtain p0 where p0: "map_of (waitForResp st) k0 = Some p0" by auto
  let ?st1 = "clearTimeout (waitTimers st k0)
        ((settle p0 (Rejected (cancelError k0 (closeReason err))) st)
           \<lparr>waitForResp := AList.delete k0 (waitForResp st)\<rparr>)"
  have step: "cancelAllStep err k0 st = (None, ?st1)" by (rule cancelAllStep_present [OF p0])
  have d: "distinct ks" and nk: "k0 \<notin> set ks" using Cons.prems(1) by auto
  show ?case
  proof (cases "k0 = k")
    case True
    then have pp: "p0 = p" using p0 Cons.prems(4) by simp
    have "outcomeOf ?st1 p = Rejected (cancelError k (closeReason err))"
      using Cons.prems(5,6) True pp by (simp add: outcomeOf_settle)
    then have "outcomeOf (snd (cancelAllLoop err ks ?st1)) p = Rejected (cancelError k (closeReason err))"
      using cancelAllLoop_settled [of ?st1 p err ks] by simp
    then show ?thesis using step by simp
  next
    case False
    then have kin: "k \<in> set ks" using Cons.prems(3) by simp
    have ne: "p0 \<noteq> p" using Cons.prems(7) p0 False by auto
    have pres: "\<forall>k'\<in>set ks. map_of (waitForResp ?st1) k' \<noteq> None"
      using Cons.prems(2) nk by (auto simp: delete_conv')
    have a4: "map_of (waitForResp ?st1) k = Some p"
      using Cons.prems(4) False by (simp add: delete_conv')
    have a5: "p < length (promises ?st1)" using Cons.prems(5) by simp
    have a6: "outcomeOf ?st1 p = Pending" using Cons.prems(6) ne by (simp add: outcomeOf_settle)
    have a7: "\<forall>k'\<in>set ks. map_of (waitForResp ?st1) k' = Some p \<longrightarrow> k' = k"
      using Cons.prems(7) nk by (auto simp: delete_conv')
    show ?thesis using Cons.IH [OF d pres kin a4 a5 a6 a7] step by simp
  qed
qed

lemma wf_keys:
  assumes "wellFormed st"
  shows "remdups (map fst (waitForResp st)) = map fst (waitForResp st)"
    and "(k, p) \<in> set (waitForResp st) \<Longrightarrow> map_of (waitForResp st) k = Some p"
    and "(k, p) \<in> set (waitForResp st) \<Longrightarrow> p < length (promises st)"
    and "map_of (waitForResp st) k = Some p \<Longrightarrow> map_of (waitForResp st) k' = Some p \<Longrightarrow> k' = k"
proof -
  have d1: "distinct (map fst (waitForResp st))" and d2: "distinct (map snd (waitForResp st))"
    using assms by (simp_all add: wellFormed_def)
  show "remdups (map fst (waitForResp st)) = map fst (waitForResp st)"
    using d1 by (rule distinct_remdups_id)
  show "(k, p) \<in> set (waitForResp st) \<Longrightarrow> map_of (waitForResp st) k = Some p"
    using d1 by simp
  show "(k, p) \<in> set (waitForResp st) \<Longrightarrow> p < length (promises st)"
    using assms by (auto simp: wellFormed_def list_all_iff)
  show "map_of (waitForResp st) k = Some p \<Longrightarrow> map_of (waitForResp st) k' = Some p \<Longrightarrow> k' = k"
  proof -
    assume a: "map_of (waitForResp st) k = Some p" and b: "map_of (waitForResp st) k' = Some p"
    have m: "(k, p) \<in> set (waitForResp st)" "(k', p) \<in> set (waitForResp st)"
      using a b by (auto dest: map_of_SomeD)
    have "inj_on snd (set (waitForResp st))" using d2 by (simp add: distinct_map)
    then have "(k', p) = (k, p)" using inj_onD [of snd "set (waitForResp st)" "(k', p)" "(k, p)"] m by simp
    then show "k' = k" by simp
  qed
qed

lemma cancelAll_wf:
  assumes "wellFormed st"
  shows "\<exists>st'. cancelAllOidReplies err st = (None, st')
     \<and> waitForResp st' = []
     \<and> settles st' = settles st @
          map (\<lambda>kv. (snd kv, Rejected (cancelError (fst kv) (closeReason err)))) (waitForResp st)
     \<and> waitTimers st' = waitTimers st
     \<and> (\<forall>t. timers st' t =
          (if \<exists>kv\<in>set (waitForResp st). waitTimers st (fst kv) = Some t then None else timers st t))
     \<and> (\<forall>kv\<in>set (waitForResp st). outcomeOf st (snd kv) = Pending \<longrightarrow>
          outcomeOf st' (snd kv) = Rejected (cancelError (fst kv) (closeReason err)))
     \<and> sent st' = sent st \<and> logs st' = logs st \<and> socket st' = socket st
     \<and> isAuthorized st' = isAuthorized st \<and> handlers st' = handlers st
     \<and> length (promises st') = length (promises st)"
proof -
  let ?ks = "map fst (waitForResp st)"
  have d: "distinct ?ks" using assms by (simp add: wellFormed_def)
  have pres: "\<forall>k\<in>set ?ks. map_of (waitForResp st) k \<noteq> None"
    using wf_keys(2) [OF assms] by fastforce
  have eq: "cancelAllOidReplies err st = cancelAllLoop err ?ks st"
    by (simp add: cancelAllOidReplies_def wf_keys(1) [OF assms])
  from cancelAllLoop_ok [OF d pres, of err] obtain st' where
    st': "cancelAllLoop err ?ks st = (None, st')"
     "waitForResp st' = filter (\<lambda>kv. fst kv \<notin> set ?ks) (waitForResp st)"
     "settles st' = settles st @
          map (\<lambda>k. (the (map_of (waitForResp st) k), Rejected (cancelError k (closeReason err)))) ?ks"
     "waitTimers st' = waitTimers st"
     "\<forall>t. timers st' t = (if \<exists>k\<in>set ?ks. waitTimers st k = Some t then None else timers st t)"
     "sent st' = sent st" "logs st' = logs st" "socket st' = socket st"
     "isAuthorized st' = isAuthorized st" "handlers st' = handlers st"
     "length (promises st') = length (promises st)"
    by blast
  have e1: "waitForResp st' = []"
    unfolding st'(2) by (simp add: filter_empty_conv)
  have e2: "map (\<lambda>k. (the (map_of (waitForResp st) k), Rejected (cancelError k (closeReason err)))) ?ks
      = map (\<lambda>kv. (snd kv, Rejected (cancelError (fst kv) (closeReason err)))) (waitForResp st)"
    using wf_keys(2) [OF assms] by (auto simp: comp_def)
  have e3: "\<forall>kv\<in>set (waitForResp st). outcomeOf st (snd kv) = Pending \<longrightarrow>
          outcomeOf st' (snd kv) = Rejected (cancelError (fst kv) (closeReason err))"
  proof (intro ballI impI)
    fix kv assume kv: "kv \<in> set (waitForResp st)" and pend: "outcomeOf st (snd kv) = Pending"
    have m: "map_of (waitForResp st) (fst kv) = Some (snd kv)"
      using wf_keys(2) [OF assms, of "fst kv" "snd kv"] kv by simp
    have l: "snd kv < length (promises st)"
      using wf_keys(3) [OF assms, of "fst kv" "snd kv"] kv by simp
    have inj: "\<forall>k'\<in>set ?ks. map_of (waitForResp st) k' = Some (snd kv) \<longrightarrow> k' = fst kv"
      using wf_keys(4) [OF assms m] by blast
    have kin: "fst kv \<in> set ?ks" using kv by simp
    show "outcomeOf st' (snd kv) = Rejected (cancelError (fst kv) (closeReason err))"
      using cancelAllLoop_outcome [OF d pres kin m l pend inj, of err] st'(1) by simp
  qed
  show ?thesis
    apply (rule exI [of _ st'])
    using st' eq e1 e2 e3 by auto
qed
lemma cancelAll_empty: "waitForResp st = [] \<Longrightarrow> cancelAllOidReplies err st = (None, st)"
  by (simp add: cancelAllOidReplies_def)

lemma cancelledAll_after:
  assumes "wellFormed st" and "waitForResp st0 = waitForResp st" and "promises st0 = promises st"
    and "settles st0 = settles st" and "waitTimers st0 = waitTimers st" and "socket st0 = None"
    and "cancelAllOidReplies err st0 = (r, st1)"
  shows "r = None \<and> cancelledAll st err c (notify cb err (settle c (Rejected err) st1))
       \<and> isAuthorized (notify cb err (settle c (Rejected err) st1)) = isAuthorized st0"
proof -
  have w0: "wellFormed st0" using assms(1,2,3) by (simp add: wellFormed_def)
  have obj: "\<And>k. cancelError k (closeReason err) =
      Obj [(''oid'', Str k), (''error'', if truthy err then err else Str ''connection closed''),
           (''unexpectedError'', Bool True)]"
    by (simp add: cancelError_def closeReason_def js_or_def)
  from cancelAll_wf [OF w0, of err] assms(7) have r: "r = None"
    and a: "waitForResp st1 = []"
    and b: "settles st1 = settles st0 @
          map (\<lambda>kv. (snd kv, Rejected (cancelError (fst kv) (closeReason err)))) (waitForResp st0)"
    and t: "\<forall>t. timers st1 t =
          (if \<exists>kv\<in>set (waitForResp st0). waitTimers st0 (fst kv) = Some t then None else timers st0 t)"
    and o: "\<forall>kv\<in>set (waitForResp st0). outcomeOf st0 (snd kv) = Pending \<longrightarrow>
          outcomeOf st1 (snd kv) = Rejected (cancelError (fst kv) (closeReason err))"
    and s: "socket st1 = socket st0" and au: "isAuthorized st1 = isAuthorized st0"
    by auto
  let ?st2 = "notify cb err (settle c (Rejected err) st1)"
  have n: "\<And>x. waitForResp (notify cb err x) = waitForResp x" "\<And>x. settles (notify cb err x) = settles x"
    "\<And>x. timers (notify cb err x) = timers x" "\<And>x. socket (notify cb err x) = socket x"
    "\<And>x q. outcomeOf (notify cb err x) q = outcomeOf x q"
    "\<And>x. isAuthorized (notify cb err x) = isAuthorized x"
    by (simp_all add: notify_def outcomeOf_def split: option.splits)
  have oo: "\<And>q. outcomeOf st0 q = outcomeOf st q" using assms(3) by (simp add: outcomeOf_def)
  have c3: "list_all (\<lambda>kv. outcomeOf st (snd kv) = Pending \<longrightarrow>
                  outcomeOf ?st2 (snd kv) = Rejected (cancelError (fst kv) (closeReason err)))
       (waitForResp st)"
    using o assms(2) by (auto simp: list_all_iff n oo outcomeOf_settle)
  have c4: "list_all (\<lambda>kv. case waitTimers st (fst kv) of None \<Rightarrow> True | Some t \<Rightarrow> timers ?st2 t = None)
       (waitForResp st)"
    using t assms(2,5) by (auto simp: list_all_iff n split: option.splits)
  show ?thesis
    using r a b c3 c4 s au assms(2,4,6) unfolding obj by (simp add: cancelledAll_def n)
qed

text \<open>
  C3. The \<^verbatim>\<open>close\<close> and the \<^verbatim>\<open>error\<close> listener of the socket both reject every
  entry of the registry once, with the object \<^verbatim>\<open>{oid, error, unexpectedError: true}\<close>
  that carries the oid of the entry and the closing reason (the argument of the event, or
  \<^verbatim>\<open>'connection closed'\<close> when that is falsy), clear the timers of the entries and leave
  the registry empty, without throwing; and \<^verbatim>\<open>#cancelAllOidReplies\<close> on an empty
  registry changes nothing. (\<open>cancelledAll\<close> spells the rejections out.)
\<close>

theorem transport_close_cancels_all:
  assumes "wellFormed st"
  shows "fst (socketOnClose c cb err st) = None
       \<and> cancelledAll st err c (snd (socketOnClose c cb err st))
       \<and> \<not> isAuthorized (snd (socketOnClose c cb err st))
       \<and> fst (socketOnError c cb err st) = None
       \<and> cancelledAll st err c (snd (socketOnError c cb err st))
       \<and> (waitForResp st = [] \<longrightarrow> cancelAllOidReplies err st = (None, st))"
proof -
  obtain r1 s1 where c1: "cancelAllOidReplies err (st\<lparr>socket := None, isAuthorized := False\<rparr>) = (r1, s1)"
    by (cases "cancelAllOidReplies err (st\<lparr>socket := None, isAuthorized := False\<rparr>)")
  obtain r2 s2 where c2: "cancelAllOidReplies err (st\<lparr>socket := None\<rparr>) = (r2, s2)"
    by (cases "cancelAllOidReplies err (st\<lparr>socket := None\<rparr>)")
  have a1: "r1 = None \<and> cancelledAll st err c (notify cb err (settle c (Rejected err) s1))
       \<and> isAuthorized (notify cb err (settle c (Rejected err) s1))
          = isAuthorized (st\<lparr>socket := None, isAuthorized := False\<rparr>)"
    by (rule cancelledAll_after [OF assms _ _ _ _ _ c1]) simp_all
  have a2: "r2 = None \<and> cancelledAll st err c (notify cb err (settle c (Rejected err) s2))
       \<and> isAuthorized (notify cb err (settle c (Rejected err) s2))
          = isAuthorized (st\<lparr>socket := None\<rparr>)"
    by (rule cancelledAll_after [OF assms _ _ _ _ _ c2]) simp_all
  have e1: "socketOnClose c cb err st = (None, notify cb err (settle c (Rejected err) s1))"
    using c1 a1 by (simp add: socketOnClose_def)
  have e2: "socketOnError c cb err st = (None, notify cb err (settle c (Rejected err) s2))"
    using c2 a2 by (simp add: socketOnError_def)
  show ?thesis
    using a1 a2 unfolding e1 e2 by (simp add: cancelAll_empty)
qed

lemma examplePending_wf: "wellFormed examplePending"
  by (simp add: wellFormed_def examplePending_fields)

theorem transport_close_cancels_all_witness:
  "wellFormed examplePending
   \<and> waitForResp (snd (socketOnClose 0 None (Num ''1006'') examplePending)) = []
   \<and> settles (snd (socketOnClose 0 None (Num ''1006'') examplePending))
       = [(1, Rejected (Obj [(''oid'', Str ''51_get_ticker''), (''error'', Num ''1006''),
                             (''unexpectedError'', Bool True)])),
          (0, Rejected (Num ''1006''))]
   \<and> outcomeOf (snd (socketOnClose 0 None (Num ''1006'') examplePending)) 1
       = Rejected (Obj [(''oid'', Str ''51_get_ticker''), (''error'', Num ''1006''),
                        (''unexpectedError'', Bool True)])
   \<and> timers (snd (socketOnClose 0 None (Num ''1006'') examplePending)) 0 = None
   \<and> settles (snd (socketOnError 0 None Undefined examplePending))
       = [(1, Rejected (Obj [(''oid'', Str ''51_get_ticker''), (''error'', Str ''connection closed''),
                             (''unexpectedError'', Bool True)])),
          (0, Rejected Undefined)]
   \<and> outcomeOf (snd (socketOnError 0 None Undefined examplePending)) 1
       = Rejected (Obj [(''oid'', Str ''51_get_ticker''), (''error'', Str ''connection closed''),
                        (''unexpectedError'', Bool True)])"
  using transport_close_cancels_all [OF examplePending_wf, of 0 None "Num ''1006''"]
    transport_close_cancels_all [OF examplePending_wf, of 0 None Undefined] examplePending_wf
  by (simp add: cancelledAll_def examplePending_fields)
section \<open>What the cancel paths leave alone\<close>

lemma cancelAllStep_frame:
  "socket (snd (cancelAllStep err k st)) = socket st"
  "isAuthorized (snd (cancelAllStep err k st)) = isAuthorized st"
  "isPublicClient (snd (cancelAllStep err k st)) = isPublicClient st"
  "waitTimers (snd (cancelAllStep err k st)) = waitTimers st"
  "handlers (snd (cancelAllStep err k st)) = handlers st"
  "sent (snd (cancelAllStep err k st)) = sent st"
  "length (promises (snd (cancelAllStep err k st))) = length (promises st)"
  by (simp_all add: cancelAllStep_def Let_def split: option.splits)

lemma cancelAllLoop_frame:
  "socket (snd (cancelAllLoop err ks st)) = socket st
   \<and> isAuthorized (snd (cancelAllLoop err ks st)) = isAuthorized st
   \<and> isPublicClient (snd (cancelAllLoop err ks st)) = isPublicClient st
   \<and> waitTimers (snd (cancelAllLoop err ks st)) = waitTimers st
   \<and> handlers (snd (cancelAllLoop err ks st)) = handlers st
   \<and> sent (snd (cancelAllLoop err ks st)) = sent st
   \<and> length (promises (snd (cancelAllLoop err ks st))) = length (promises st)"
proof (induction ks arbitrary: st)
  case Nil
  then show ?case by simp
next
  case (Cons k ks)
  obtain r st1 where s: "cancelAllStep err k st = (r, st1)" by (cases "cancelAllStep err k st")
  have f: "socket st1 = socket st" "isAuthorized st1 = isAuthorized st"
    "isPublicClient st1 = isPublicClient st" "waitTimers st1 = waitTimers st"
    "handlers st1 = handlers st" "sent st1 = sent st"
    "length (promises st1) = length (promises st)"
    using cancelAllStep_frame [of err k st] s by simp_all
  show ?case
  proof (cases r)
    case None
    then show ?thesis using s f Cons.IH [of st1] by simp
  next
    case (Some ex)
    then show ?thesis using s f by simp
  qed
qed

lemma cancelAll_frame:
  "socket (snd (cancelAllOidReplies err st)) = socket st"
  "isAuthorized (snd (cancelAllOidReplies err st)) = isAuthorized st"
  "isPublicClient (snd (cancelAllOidReplies err st)) = isPublicClient st"
  "waitTimers (snd (cancelAllOidReplies err st)) = waitTimers st"
  "handlers (snd (cancelAllOidReplies err st)) = handlers st"
  "sent (snd (cancelAllOidReplies err st)) = sent st"
  "length (promises (snd (cancelAllOidReplies err st))) = length (promises st)"
  using cancelAllLoop_frame [of err "remdups (map fst (waitForResp st))" st]
  by (simp_all add: cancelAllOidReplies_def)

lemma notify_fields [simp]:
  "waitForResp (notify cb v st) = waitForResp st"
  "waitTimers (notify cb v st) = waitTimers st"
  "timers (notify cb v st) = timers st"
  "promises (notify cb v st) = promises st"
  "settles (notify cb v st) = settles st"
  "sent (notify cb v st) = sent st"
  "socket (notify cb v st) = socket st"
  "isAuthorized (notify cb v st) = isAuthorized st"
  "isPublicClient (notify cb v st) = isPublicClient st"
  "handlers (notify cb v st) = handlers st"
  by (simp_all add: notify_def split: option.splits)

lemma socketOnClose_frame:
  "socket (snd (socketOnClose c cb err st)) = None"
  "\<not> isAuthorized (snd (socketOnClose c cb err st))"
  "isPublicClient (snd (socketOnClose c cb err st)) = isPublicClient st"
  "waitTimers (snd (socketOnClose c cb err st)) = waitTimers st"
  "sent (snd (socketOnClose c cb err st)) = sent st"
  using cancelAll_frame [of err "st\<lparr>socket := None, isAuthorized := False\<rparr>"]
  by (auto simp: socketOnClose_def split: prod.splits option.splits)

lemma socketOnError_frame:
  "socket (snd (socketOnError c cb err st)) = None"
  "isAuthorized (snd (socketOnError c cb err st)) = isAuthorized st"
  "isPublicClient (snd (socketOnError c cb err st)) = isPublicClient st"
  "waitTimers (snd (socketOnError c cb err st)) = waitTimers st"
  "sent (snd (socketOnError c cb err st)) = sent st"
  using cancelAll_frame [of err "st\<lparr>socket := None\<rparr>"]
  by (auto simp: socketOnError_def split: prod.splits option.splits)

section \<open>The two flags\<close>

text \<open>
  \<^verbatim>\<open>#isPublicClient\<close> is set by the constructor and never again. \<^verbatim>\<open>#isAuthorized\<close>
  is set by the handler of \<^verbatim>\<open>#auth\<close> alone, and reset by the close listener and by the
  handler of \<^verbatim>\<open>disconnected\<close>.
\<close>

lemma settleAwaited_flags [simp]:
  "isPublicClient (settleAwaited a c oc st) = isPublicClient st"
  "isAuthorized (settleAwaited a c oc st) = isAuthorized st"
  by (simp_all add: settleAwaited_def)

lemma auth_flags:
  "isPublicClient (auth hmac now rep c st) = isPublicClient st"
  "isAuthorized (auth hmac now rep c st) = isAuthorized st"
  by (simp_all add: auth_def getDefer_def addHandler_def authSendCallback_def Let_def
      split: sum.splits send_report.splits)

lemma authHandler_flags:
  "isPublicClient (snd (authHandler a c m st)) = isPublicClient st"
  "isAuthorized (snd (authHandler a c m st)) =
     (isAuthorized st \<or> getProp (data m) ''ok'' = Inr (Str ''ok''))"
  by (auto simp: authHandler_def split: sum.splits)

lemma handleOidReply_flags:
  "isPublicClient (snd (handleOidReply m st)) = isPublicClient st"
  "isAuthorized (snd (handleOidReply m st)) = isAuthorized st"
  by (simp_all add: handleOidReply_def log_def Let_def split: option.splits sum.splits)

lemma invokeHandler_public:
  "isPublicClient (snd (invokeHandler hmac now rep h arg0 st)) = isPublicClient st"
  by (cases h)
    (simp_all add: invokeHandler_def cancelAll_frame auth_flags authHandler_flags
      split: option.splits)

lemma invokeHandler_authorized:
  assumes "isAuthorized (snd (invokeHandler hmac now rep h arg0 st))"
  shows "isAuthorized st \<or>
         (\<exists>a c m. h = HAuth a c \<and> arg0 = Some m \<and> getProp (data m) ''ok'' = Inr (Str ''ok''))"
  using assms
  by (cases h)
    (auto simp: invokeHandler_def cancelAll_frame auth_flags authHandler_flags
      split: option.splits if_splits)

lemma callInherited_flags:
  "isPublicClient (snd (callInherited hmac now rep k m st)) = isPublicClient st"
  "isAuthorized (snd (callInherited hmac now rep k m st)) \<Longrightarrow> isAuthorized st"
proof -
  show "isPublicClient (snd (callInherited hmac now rep k m st)) = isPublicClient st"
    by (simp add: callInherited_def invokeHandler_public split: option.splits)
  assume a: "isAuthorized (snd (callInherited hmac now rep k m st))"
  show "isAuthorized st"
  proof (cases "k = ''toLocaleString''")
    case False
    then show ?thesis using a by (simp add: callInherited_def split: if_splits)
  next
    case True
    show ?thesis
    proof (cases "handlers st ''toString''")
      case None
      then show ?thesis using a True by (simp add: callInherited_def)
    next
      case (Some h)
      then have "isAuthorized (snd (invokeHandler hmac now rep h None st))"
        using a True by (simp add: callInherited_def)
      then show ?thesis using invokeHandler_authorized by blast
    qed
  qed
qed

lemma handleMessage_public:
  "isPublicClient (snd (handleMessage hmac now rep m st)) = isPublicClient st"
  by (simp add: handleMessage_def Let_def invokeHandler_public callInherited_flags
      handleOidReply_flags log_def split: option.splits)


lemma cancelOidReply_flags:
  "isPublicClient (cancelOidReply k reason st) = isPublicClient st"
  "isAuthorized (cancelOidReply k reason st) = isAuthorized st"
  by (simp_all add: cancelOidReply_def Let_def split: option.splits)

lemma timerFire_flags:
  "isPublicClient (timerFire t st) = isPublicClient st"
  "isAuthorized (timerFire t st) = isAuthorized st"
  by (simp_all add: timerFire_def cancelOidReply_flags split: option.splits)

lemma sendCallback_flags:
  "isPublicClient (snd (sendCallback k err st)) = isPublicClient st"
  "isAuthorized (snd (sendCallback k err st)) = isAuthorized st"
  by (simp_all add: sendCallback_def Let_def split: option.splits)

text \<open>The client when \<^verbatim>\<open>#callRequest\<close> has called \<^verbatim>\<open>send\<close>, and the rest of the call.\<close>

lemma callRequest_open:
  assumes "socketOpen st"
  shows "callRequest name args now rep st =
     (let k = newOid now (Suc (oidSeqId st)) name;
          st7 = st\<lparr>oidSeqId := Suc (oidSeqId st), promises := promises st @ [Pending],
                   waitForResp := AList.update k (length (promises st)) (waitForResp st),
                   timers := (timers st)(timerSeq st \<mapsto> k), timerSeq := Suc (timerSeq st),
                   waitTimers := (waitTimers st)(k \<mapsto> timerSeq st),
                   logs := logs st @ [LogSending (Request name (defaultParams args) k)],
                   sent := sent st @ [Request name (defaultParams args) k]\<rparr>;
          rs = (case rep of Deferred \<Rightarrow> (None, st7) | Reported err \<Rightarrow> sendCallback k err st7)
      in (case fst rs of
            Some ex \<Rightarrow> (Inl ex, snd rs)
          | None \<Rightarrow>
              (case map_of (waitForResp (snd rs)) k of
                 None \<Rightarrow> (Inl (TypeErr ''Cannot read properties of undefined''), snd rs)
               | Some q \<Rightarrow> (Inr q, snd rs))))"
  using assms
  by (cases rep)
    (simp_all add: callRequest_def getDefer_def setTimeout_def log_def Let_def split_beta
      cong: option.case_cong)

lemma callRequest_snd:
  assumes "socketOpen st"
  shows "snd (callRequest name args now rep st) =
     (let k = newOid now (Suc (oidSeqId st)) name;
          st7 = st\<lparr>oidSeqId := Suc (oidSeqId st), promises := promises st @ [Pending],
                   waitForResp := AList.update k (length (promises st)) (waitForResp st),
                   timers := (timers st)(timerSeq st \<mapsto> k), timerSeq := Suc (timerSeq st),
                   waitTimers := (waitTimers st)(k \<mapsto> timerSeq st),
                   logs := logs st @ [LogSending (Request name (defaultParams args) k)],
                   sent := sent st @ [Request name (defaultParams args) k]\<rparr>
      in (case rep of Deferred \<Rightarrow> st7 | Reported err \<Rightarrow> snd (sendCallback k err st7)))"
  unfolding callRequest_open [OF assms]
  by (simp add: Let_def split: send_report.splits option.splits)

lemma callRequest_flags:
  "isPublicClient (snd (callRequest name args now rep st)) = isPublicClient st"
  "isAuthorized (snd (callRequest name args now rep st)) = isAuthorized st"
proof -
  show "isPublicClient (snd (callRequest name args now rep st)) = isPublicClient st"
  proof (cases "socketOpen st")
    case False
    then show ?thesis by (simp add: callRequest_def)
  next
    case True
    show ?thesis
      unfolding callRequest_snd [OF True]
      by (simp add: Let_def sendCallback_flags split: send_report.splits)
  qed
  show "isAuthorized (snd (callRequest name args now rep st)) = isAuthorized st"
  proof (cases "socketOpen st")
    case False
    then show ?thesis by (simp add: callRequest_def)
  next
    case True
    show ?thesis
      unfolding callRequest_snd [OF True]
      by (simp add: Let_def sendCallback_flags split: send_report.splits)
  qed
qed

lemma connect_flags:
  "isPublicClient (snd (connect thrown st)) = isPublicClient st"
  "isAuthorized (snd (connect thrown st)) = isAuthorized st"
  by (simp_all add: connect_def getDefer_def log_def addHandler_def Let_def split: option.splits)

lemma step_public: "isPublicClient (step hmac st x) = isPublicClient st"
  by (cases x)
    (simp_all add: connect_flags transportOpened_def handleMessage_public socketOnClose_frame
      socketOnError_frame timerFire_flags callPublic_def callPrivate_def callRequest_flags
      sendCallback_flags authSendCallback_def subscribe_def addHandler_def disconnect_def ping_def)

lemma run_public: "isPublicClient (run hmac st ops) = isPublicClient st"
  unfolding run_def by (induction ops arbitrary: st) (simp_all add: step_public)


section \<open>What the constructor returns\<close>

lemma constructor_Inr:
  assumes "constructor args = Inr st"
  shows "\<exists>h0. assigned (if length args = 1 then arg args 0
                        else if arg args 2 = Undefined then Obj [] else arg args 2)
               ''host'' (Str ''wss://api.plus.cex.io/'') = Str h0
          \<and> host (opts st) = (if endsWithSlash h0 then h0 else h0 @ ''/'')"
    and "isPublicClient st = (length args = 1)"
    and "\<not> isAuthorized st"
    and "waitForResp st = []"
    and "promises st = []"
    and "timers st = Map.empty"
    and "apiKey st = arg args 0"
    and "wsReplyTimeout (opts st) =
           assigned (if length args = 1 then arg args 0
                     else if arg args 2 = Undefined then Obj [] else arg args 2)
             ''wsReplyTimeout'' (Num ''30000'')"
    and "rejectUnauthorized (opts st) =
           assigned (if length args = 1 then arg args 0
                     else if arg args 2 = Undefined then Obj [] else arg args 2)
             ''rejectUnauthorized'' (Bool True)"
    and "apiUrlPublic (opts st) =
           (if truthy (assigned (if length args = 1 then arg args 0
                     else if arg args 2 = Undefined then Obj [] else arg args 2)
                  ''apiUrlPublic'' Undefined)
            then assigned (if length args = 1 then arg args 0
                     else if arg args 2 = Undefined then Obj [] else arg args 2)
                  ''apiUrlPublic'' Undefined
            else Str (host (opts st) @ ''ws-public''))"
proof -
  let ?o1 = "if length args = 1 then arg args 0
             else if arg args 2 = Undefined then Obj [] else arg args 2"
  let ?hv = "assigned ?o1 ''host'' (Str ''wss://api.plus.cex.io/'')"
  have c: "constructor args =
      (case ?hv of
            Str h0 \<Rightarrow>
              (let h = (if endsWithSlash h0 then h0 else h0 @ ''/'');
                   u = assigned ?o1 ''apiUrl'' Undefined;
                   up = assigned ?o1 ''apiUrlPublic'' Undefined
               in Inr \<lparr>apiKey = arg args 0, apiSecret = arg args 1, oidSeqId = 0,
                       handlers = Map.empty, waitForResp = [], waitTimers = Map.empty,
                       isAuthorized = False, isPublicClient = (length args = 1),
                       opts = \<lparr>wsReplyTimeout = assigned ?o1 ''wsReplyTimeout'' (Num ''30000''),
                               rejectUnauthorized = assigned ?o1 ''rejectUnauthorized'' (Bool True),
                               host = h,
                               apiUrl = (if truthy u then u else Str (h @ ''ws'')),
                               apiUrlPublic = (if truthy up then up else Str (h @ ''ws-public''))\<rparr>,
                       socket = None, promises = [], timers = Map.empty, timerSeq = 0,
                       sent = [], settles = [], logs = [], invoked = [], notified = []\<rparr>)
          | _ \<Rightarrow> Inl (TypeErr ''this.#options.host.endsWith is not a function''))"
    unfolding constructor_def Let_def by (rule refl)
  obtain h0 where h0: "?hv = Str h0"
    using assms unfolding c by (cases ?hv) simp_all
  have st: "st = \<lparr>apiKey = arg args 0, apiSecret = arg args 1, oidSeqId = 0,
                       handlers = Map.empty, waitForResp = [], waitTimers = Map.empty,
                       isAuthorized = False, isPublicClient = (length args = 1),
                       opts = \<lparr>wsReplyTimeout = assigned ?o1 ''wsReplyTimeout'' (Num ''30000''),
                               rejectUnauthorized = assigned ?o1 ''rejectUnauthorized'' (Bool True),
                               host = (if endsWithSlash h0 then h0 else h0 @ ''/''),
                               apiUrl = (if truthy (assigned ?o1 ''apiUrl'' Undefined)
                                         then assigned ?o1 ''apiUrl'' Undefined
                                         else Str ((if endsWithSlash h0 then h0 else h0 @ ''/'') @ ''ws'')),
                               apiUrlPublic = (if truthy (assigned ?o1 ''apiUrlPublic'' Undefined)
                                         then assigned ?o1 ''apiUrlPublic'' Undefined
                                         else Str ((if endsWithSlash h0 then h0 else h0 @ ''/'') @ ''ws-public''))\<rparr>,
                       socket = None, promises = [], timers = Map.empty, timerSeq = 0,
                       sent = [], settles = [], logs = [], invoked = [], notified = []\<rparr>"
  proof -
    have "constructor args = Inr st" by (rule assms)
    then show ?thesis unfolding c h0 by (simp only: jsval.case Let_def sum.inject)
  qed
  show "\<exists>h0. ?hv = Str h0 \<and> host (opts st) = (if endsWithSlash h0 then h0 else h0 @ ''/'')"
    using h0 by (simp add: st)
  show "isPublicClient st = (length args = 1)" by (simp add: st)
  show "\<not> isAuthorized st" by (simp add: st)
  show "waitForResp st = []" by (simp add: st)
  show "promises st = []" by (simp add: st)
  show "timers st = Map.empty" by (simp add: st)
  show "apiKey st = arg args 0" by (simp add: st)
  show "wsReplyTimeout (opts st) = assigned ?o1 ''wsReplyTimeout'' (Num ''30000'')"
    by (simp add: st)
  show "rejectUnauthorized (opts st) = assigned ?o1 ''rejectUnauthorized'' (Bool True)"
    by (simp add: st)
  show "apiUrlPublic (opts st) =
           (if truthy (assigned ?o1 ''apiUrlPublic'' Undefined)
            then assigned ?o1 ''apiUrlPublic'' Undefined
            else Str (host (opts st) @ ''ws-public''))"
    by (simp add: st)
qed
section \<open>Calls on a transport that is not open\<close>

text \<open>
  C4, as the claim has it, fails: \<^verbatim>\<open>callPrivate\<close> checks the authorization before
  \<^verbatim>\<open>#callRequest\<close> checks the socket, and the \<^verbatim>\<open>close\<close> listener resets the
  authorization. After a close, \<^verbatim>\<open>callPrivate\<close> on a client that had been authorized
  fails with \<^verbatim>\<open>'Not authorized'\<close>.
\<close>

theorem callPrivate_after_close_counterexample:
  "\<not> socketOpen (snd (socketOnClose 0 None (Num ''1006'') examplePrivate))
   \<and> fst (callPrivate ''get_my_orders'' (Obj []) 9 Deferred
            (snd (socketOnClose 0 None (Num ''1006'') examplePrivate)))
       = Inl (Err ''Not authorized'')
   \<and> fst (callPrivate ''get_my_orders'' (Obj []) 9 Deferred
            (snd (socketOnClose 0 None (Num ''1006'') examplePrivate)))
       \<noteq> Inl (Err ''Not connected'')"
  by (simp add: callPrivate_def socketOpen_def socketOnClose_frame examplePrivate_fields)

text \<open>
  C4, amended. While the transport is not open, \<^verbatim>\<open>callPublic\<close> on a public client and
  \<^verbatim>\<open>callPrivate\<close> on an authorized private client fail with \<^verbatim>\<open>'Not connected'\<close> and
  change nothing; \<^verbatim>\<open>callPrivate\<close> on a private client that is not authorized fails
  with \<^verbatim>\<open>'Not authorized'\<close>. The error listener leaves no socket and keeps the
  authorization, the close listener leaves no socket and no authorization.
\<close>

theorem not_connected_when_reached:
  assumes "\<not> socketOpen st"
  shows "callRequest method params now rep st = (Inl (Err ''Not connected''), st)
       \<and> (isPublicClient st \<longrightarrow>
            callPublic method params now rep st = (Inl (Err ''Not connected''), st))
       \<and> (\<not> isPublicClient st \<and> isAuthorized st \<longrightarrow>
            callPrivate method params now rep st = (Inl (Err ''Not connected''), st))
       \<and> (\<not> isPublicClient st \<and> \<not> isAuthorized st \<longrightarrow>
            callPrivate method params now rep st = (Inl (Err ''Not authorized''), st))
       \<and> \<not> socketOpen (snd (socketOnError c cb err st0))
       \<and> isAuthorized (snd (socketOnError c cb err st0)) = isAuthorized st0
       \<and> \<not> socketOpen (snd (socketOnClose c cb err st0))
       \<and> \<not> isAuthorized (snd (socketOnClose c cb err st0))"
  using assms
  by (simp add: callRequest_def callPublic_def callPrivate_def socketOpen_def
      socketOnClose_frame socketOnError_frame)

theorem not_connected_when_reached_witness:
  "\<not> socketOpen (snd (socketOnError 0 None (Err ''ECONNRESET'') examplePrivate))
   \<and> fst (callPrivate ''get_my_orders'' (Obj []) 9 Deferred
            (snd (socketOnError 0 None (Err ''ECONNRESET'') examplePrivate)))
       = Inl (Err ''Not connected'')"
proof -
  have h: "\<not> socketOpen (snd (socketOnError 0 None (Err ''ECONNRESET'') examplePrivate))"
    by (simp add: socketOpen_def socketOnError_frame)
  show ?thesis
    using not_connected_when_reached [OF h, of "''get_my_orders''" "Obj []" 9 Deferred] h
    by (simp add: socketOnError_frame examplePrivate_fields)
qed

section \<open>Private calls before the handshake\<close>



section \<open>Public and private clients\<close>

text \<open>
  C10. A client is public exactly when the constructor was called with one argument,
  and stays so: after any run of operations, \<^verbatim>\<open>#isPublicClient\<close> still says whether
  there was one argument. That argument is taken for the options, whatever it is: the
  members of an object become the options (the reply timeout, the certificate check, the
  host, completed by a slash, and the public endpoint derived from it), and a string
  leaves the defaults. A client constructed with no argument, or with another number of
  arguments, is private, and each \<^verbatim>\<open>callPublic\<close> on it, whenever made, is rejected with
  the error of the guard and changes nothing.
\<close>

theorem public_iff_one_argument:
  assumes "constructor args = Inr st0"
  shows "(isPublicClient (run hmac st0 ops) \<longleftrightarrow> length args = 1)
       \<and> (length args \<noteq> 1 \<longrightarrow>
            callPublic name ps now rep (run hmac st0 ops) =
              (Inl (Err ''Attempt to call public method on private client''), run hmac st0 ops))
       \<and> (args = [Obj kvs] \<longrightarrow>
            wsReplyTimeout (opts st0)
              = (case map_of kvs ''wsReplyTimeout'' of None \<Rightarrow> Num ''30000'' | Some v \<Rightarrow> v)
            \<and> rejectUnauthorized (opts st0)
              = (case map_of kvs ''rejectUnauthorized'' of None \<Rightarrow> Bool True | Some v \<Rightarrow> v)
            \<and> (\<exists>h. map_of kvs ''host'' = Some (Str h)
                   \<and> host (opts st0) = (if h \<noteq> [] \<and> last h = CHR ''/'' then h else h @ ''/'')
                 \<or> map_of kvs ''host'' = None \<and> host (opts st0) = ''wss://api.plus.cex.io/'')
            \<and> (map_of kvs ''apiUrlPublic'' = None \<longrightarrow>
                  apiUrlPublic (opts st0) = Str (host (opts st0) @ ''ws-public'')))
       \<and> (\<exists>st1. constructor [Str s] = Inr st1 \<and> isPublicClient st1
              \<and> host (opts st1) = ''wss://api.plus.cex.io/''
              \<and> wsReplyTimeout (opts st1) = Num ''30000'')
       \<and> (\<exists>st2. constructor [] = Inr st2 \<and> \<not> isPublicClient st2)"
proof -
  have a: "isPublicClient st0 \<longleftrightarrow> length args = 1"
    by (rule constructor_Inr(2) [OF assms])
  have r: "isPublicClient (run hmac st0 ops) = isPublicClient st0" by (rule run_public)
  have b: "\<exists>st1. constructor [Str s] = Inr st1 \<and> isPublicClient st1
              \<and> host (opts st1) = ''wss://api.plus.cex.io/''
              \<and> wsReplyTimeout (opts st1) = Num ''30000''"
    by (simp add: constructor_def Let_def assigned_def arg_def endsWithSlash_def)
  have z: "\<exists>st2. constructor [] = Inr st2 \<and> \<not> isPublicClient st2"
    by (simp add: constructor_def Let_def assigned_def arg_def endsWithSlash_def)
  have o: "args = [Obj kvs] \<longrightarrow>
            wsReplyTimeout (opts st0)
              = (case map_of kvs ''wsReplyTimeout'' of None \<Rightarrow> Num ''30000'' | Some v \<Rightarrow> v)
            \<and> rejectUnauthorized (opts st0)
              = (case map_of kvs ''rejectUnauthorized'' of None \<Rightarrow> Bool True | Some v \<Rightarrow> v)
            \<and> (\<exists>h. map_of kvs ''host'' = Some (Str h)
                   \<and> host (opts st0) = (if h \<noteq> [] \<and> last h = CHR ''/'' then h else h @ ''/'')
                 \<or> map_of kvs ''host'' = None \<and> host (opts st0) = ''wss://api.plus.cex.io/'')
            \<and> (map_of kvs ''apiUrlPublic'' = None \<longrightarrow>
                  apiUrlPublic (opts st0) = Str (host (opts st0) @ ''ws-public''))"
  proof
    assume e: "args = [Obj kvs]"
    have o1: "(if length args = 1 then arg args 0
               else if arg args 2 = Undefined then Obj [] else arg args 2) = Obj kvs"
      by (simp add: e arg_def)
    from constructor_Inr(1) [OF assms] obtain h0 where
      hv: "assigned (Obj kvs) ''host'' (Str ''wss://api.plus.cex.io/'') = Str h0"
      and hh: "host (opts st0) = (if endsWithSlash h0 then h0 else h0 @ ''/'')"
      unfolding o1 by blast
    have t: "wsReplyTimeout (opts st0)
              = (case map_of kvs ''wsReplyTimeout'' of None \<Rightarrow> Num ''30000'' | Some v \<Rightarrow> v)"
      using constructor_Inr(8) [OF assms] unfolding o1 by (simp add: assigned_def)
    have u: "rejectUnauthorized (opts st0)
              = (case map_of kvs ''rejectUnauthorized'' of None \<Rightarrow> Bool True | Some v \<Rightarrow> v)"
      using constructor_Inr(9) [OF assms] unfolding o1 by (simp add: assigned_def)
    have h: "(\<exists>h. map_of kvs ''host'' = Some (Str h)
                   \<and> host (opts st0) = (if h \<noteq> [] \<and> last h = CHR ''/'' then h else h @ ''/'')
                 \<or> map_of kvs ''host'' = None \<and> host (opts st0) = ''wss://api.plus.cex.io/'')"
    proof (cases "map_of kvs ''host''")
      case None
      then have "h0 = ''wss://api.plus.cex.io/''" using hv by (simp add: assigned_def)
      then show ?thesis using None hh by (simp add: endsWithSlash_def)
    next
      case (Some v)
      then have "v = Str h0" using hv by (simp add: assigned_def)
      then show ?thesis using Some hh by (simp add: endsWithSlash_def)
    qed
    have p: "map_of kvs ''apiUrlPublic'' = None \<longrightarrow>
                  apiUrlPublic (opts st0) = Str (host (opts st0) @ ''ws-public'')"
      using constructor_Inr(10) [OF assms] unfolding o1 by (simp add: assigned_def)
    show "wsReplyTimeout (opts st0)
              = (case map_of kvs ''wsReplyTimeout'' of None \<Rightarrow> Num ''30000'' | Some v \<Rightarrow> v)
            \<and> rejectUnauthorized (opts st0)
              = (case map_of kvs ''rejectUnauthorized'' of None \<Rightarrow> Bool True | Some v \<Rightarrow> v)
            \<and> (\<exists>h. map_of kvs ''host'' = Some (Str h)
                   \<and> host (opts st0) = (if h \<noteq> [] \<and> last h = CHR ''/'' then h else h @ ''/'')
                 \<or> map_of kvs ''host'' = None \<and> host (opts st0) = ''wss://api.plus.cex.io/'')
            \<and> (map_of kvs ''apiUrlPublic'' = None \<longrightarrow>
                  apiUrlPublic (opts st0) = Str (host (opts st0) @ ''ws-public''))"
      using t u h p by blast
  qed
  show ?thesis using a r b z o by (simp add: callPublic_def)
qed

theorem public_iff_one_argument_witness:
  "constructor [Str ''key'', Str ''secret''] = Inr (projr (constructor [Str ''key'', Str ''secret'']))
   \<and> \<not> isPublicClient examplePrivate
   \<and> fst (callPublic ''get_ticker'' (Obj []) 5 Deferred examplePrivate)
       = Inl (Err ''Attempt to call public method on private client'')
   \<and> sent (snd (callPublic ''get_ticker'' (Obj []) 5 Deferred examplePrivate)) = sent examplePrivate
   \<and> constructor [Obj [(''wsReplyTimeout'', Num ''50''), (''host'', Str ''wss://demo.cex.io'')]]
       = Inr (projr (constructor
           [Obj [(''wsReplyTimeout'', Num ''50''), (''host'', Str ''wss://demo.cex.io'')]]))
   \<and> isPublicClient (projr (constructor
           [Obj [(''wsReplyTimeout'', Num ''50''), (''host'', Str ''wss://demo.cex.io'')]]))
   \<and> wsReplyTimeout (opts (projr (constructor
           [Obj [(''wsReplyTimeout'', Num ''50''), (''host'', Str ''wss://demo.cex.io'')]])))
       = Num ''50''
   \<and> host (opts (projr (constructor
           [Obj [(''wsReplyTimeout'', Num ''50''), (''host'', Str ''wss://demo.cex.io'')]])))
       = ''wss://demo.cex.io/''
   \<and> apiUrlPublic (opts (projr (constructor
           [Obj [(''wsReplyTimeout'', Num ''50''), (''host'', Str ''wss://demo.cex.io'')]])))
       = Str ''wss://demo.cex.io/ws-public''"
proof -
  let ?kvs = "[(''wsReplyTimeout'', Num ''50''), (''host'', Str ''wss://demo.cex.io'')]"
  have h: "constructor [Str ''key'', Str ''secret'']
      = Inr (projr (constructor [Str ''key'', Str ''secret'']))"
    by (simp add: constructor_def Let_def assigned_def arg_def endsWithSlash_def)
  have g: "constructor [Obj ?kvs] = Inr (projr (constructor [Obj ?kvs]))"
    by (simp add: constructor_def Let_def assigned_def arg_def endsWithSlash_def)
  have x: "examplePrivate = run exampleHmac (projr (constructor [Str ''key'', Str ''secret'']))
       [OpConnect None, OpTransportOpened, OpMessage exampleConnected 7 Deferred,
        OpMessage exampleAuthOk 8 Deferred]"
    by (simp add: examplePrivate_def)
  show ?thesis
    using public_iff_one_argument [OF h, of exampleHmac
        "[OpConnect None, OpTransportOpened, OpMessage exampleConnected 7 Deferred,
          OpMessage exampleAuthOk 8 Deferred]" "''get_ticker''" "Obj []" 5 Deferred]
      public_iff_one_argument [OF g, of exampleHmac "[]" _ _ _ _ ?kvs] h g
    unfolding x [symmetric]
    by (auto simp: run_def)
qed
section \<open>Replies\<close>




section \<open>Routing\<close>




section \<open>The timer map\<close>

lemma settleAwaited_waitTimers [simp]: "waitTimers (settleAwaited a c oc st) = waitTimers st"
  by (simp add: settleAwaited_def)

lemma auth_waitTimers: "waitTimers (auth hmac now rep c st) = waitTimers st"
  by (simp add: auth_def getDefer_def addHandler_def authSendCallback_def Let_def
      split: sum.splits send_report.splits)

lemma authHandler_waitTimers: "waitTimers (snd (authHandler a c m st)) = waitTimers st"
  by (simp add: authHandler_def split: sum.splits)

lemma handleOidReply_waitTimers: "waitTimers (snd (handleOidReply m st)) = waitTimers st"
  by (simp add: handleOidReply_def log_def Let_def split: option.splits sum.splits)

lemma invokeHandler_waitTimers:
  "waitTimers (snd (invokeHandler hmac now rep h arg0 st)) = waitTimers st"
  by (cases h)
    (simp_all add: invokeHandler_def cancelAll_frame auth_waitTimers authHandler_waitTimers
      split: option.splits)

lemma callInherited_waitTimers:
  "waitTimers (snd (callInherited hmac now rep k m st)) = waitTimers st"
  by (simp add: callInherited_def invokeHandler_waitTimers split: option.splits)

lemma handleMessage_waitTimers: "waitTimers (snd (handleMessage hmac now rep m st)) = waitTimers st"
  by (simp add: handleMessage_def Let_def invokeHandler_waitTimers callInherited_waitTimers
      handleOidReply_waitTimers log_def split: option.splits)

lemma cancelOidReply_waitTimers: "waitTimers (cancelOidReply k reason st) = waitTimers st"
  by (simp add: cancelOidReply_def Let_def split: option.splits)

lemma timerFire_waitTimers: "waitTimers (timerFire t st) = waitTimers st"
  by (simp add: timerFire_def cancelOidReply_waitTimers split: option.splits)

lemma sendCallback_waitTimers: "waitTimers (snd (sendCallback k err st)) = waitTimers st"
  by (simp add: sendCallback_def Let_def split: option.splits)

lemma callRequest_waitTimers:
  "waitTimers (snd (callRequest method params now rep st)) = waitTimers st
   \<or> waitTimers (snd (callRequest method params now rep st))
       = (waitTimers st)(newOid now (Suc (oidSeqId st)) method \<mapsto> timerSeq st)"
proof (cases "socketOpen st")
  case False
  then show ?thesis by (simp add: callRequest_def)
next
  case True
  show ?thesis
    unfolding callRequest_snd [OF True]
    by (simp add: Let_def sendCallback_waitTimers split: send_report.splits)
qed

lemma step_waitTimers: "dom (waitTimers st) \<subseteq> dom (waitTimers (step hmac st x))"
proof (cases x)
  case (OpCallPublic name args now rep)
  then show ?thesis
    using callRequest_waitTimers [of name "defaultParams args" now rep st]
    by (auto simp: callPublic_def)
next
  case (OpCallPrivate name args now rep)
  then show ?thesis
    using callRequest_waitTimers [of name "defaultParams args" now rep st]
    by (auto simp: callPrivate_def)
qed (simp_all add: connect_def getDefer_def log_def addHandler_def Let_def transportOpened_def
      split: option.splits add:
      handleMessage_waitTimers socketOnClose_frame socketOnError_frame timerFire_waitTimers
      sendCallback_waitTimers authSendCallback_def subscribe_def disconnect_def ping_def)

text \<open>
  C9. No operation on the client removes a key of \<^verbatim>\<open>#waitTimers\<close>: over any sequence
  of method calls and callbacks, each key of the map is still a key afterwards. The reply,
  timeout and bulk-cancel paths leave the map as it is.
\<close>

theorem waitTimers_keys_grow:
  "dom (waitTimers st) \<subseteq> dom (waitTimers (run hmac st ops))
   \<and> waitTimers (snd (handleOidReply m st)) = waitTimers st
   \<and> waitTimers (timerFire t st) = waitTimers st
   \<and> waitTimers (snd (cancelAllOidReplies err st)) = waitTimers st"
proof -
  have "dom (waitTimers st) \<subseteq> dom (waitTimers (foldl (step hmac) st ops))"
  proof (induction ops arbitrary: st)
    case Nil
    then show ?case by simp
  next
    case (Cons x xs)
    have "dom (waitTimers st) \<subseteq> dom (waitTimers (step hmac st x))" by (rule step_waitTimers)
    also have "\<dots> \<subseteq> dom (waitTimers (foldl (step hmac) (step hmac st x) xs))" by (rule Cons.IH)
    finally show ?case by simp
  qed
  then show ?thesis
    by (simp add: run_def handleOidReply_waitTimers timerFire_waitTimers cancelAll_frame)
qed

theorem waitTimers_keys_grow_witness:
  "newOid 5 1 ''get_ticker'' \<in> dom (waitTimers examplePending)
   \<and> newOid 5 1 ''get_ticker'' \<in> dom (waitTimers (run exampleHmac examplePending
        [OpTimerFire 0, OpSocketClose 0 None (Num ''1006''), OpConnect None]))"
proof -
  have h: "newOid 5 1 ''get_ticker'' \<in> dom (waitTimers examplePending)"
    by (simp add: examplePending_fields newOid_example dom_def)
  show ?thesis
    using waitTimers_keys_grow [of examplePending exampleHmac
        "[OpTimerFire 0, OpSocketClose 0 None (Num ''1006''), OpConnect None]"] h
    by blast
qed

section \<open>The handshake\<close>

lemma auth_open:
  assumes "socketOpen st" and "apiSecret st = Str secret" and "toStr (apiKey st) = Inr key"
  shows "auth hmac now Deferred c st =
     st\<lparr>promises := promises st @ [Pending],
        handlers := (handlers st)(''auth'' \<mapsto> HAuth (length (promises st)) c),
        sent := sent st @ [AuthRequest (apiKey st) (hmac secret (tsString now @ key)) now]\<rparr>"
  using assms
  by (simp add: auth_def getDefer_def socketOpen_def addHandler_def createSignature_def Let_def)

lemma settleAwaited_fresh:
  assumes "c < length ps" and "ps ! c = Pending" and "promises st = ps @ [Pending]"
  shows "outcomeOf (settleAwaited (length ps) c oc st) c
           = (case oc of Resolved v \<Rightarrow> Resolved Undefined | _ \<Rightarrow> oc)"
    and "isAuthorized (settleAwaited (length ps) c oc st) = isAuthorized st"
  using assms
  by (simp_all add: settleAwaited_def outcomeOf_settle)
     (simp_all add: outcomeOf_def settle_def nth_append)

lemma tsString_examples:
  "tsString 1700000000123 = ''1700000000.123''"
  "tsString 1700000000120 = ''1700000000.12''"
  "tsString 1700000000000 = ''1700000000''"
  by (simp_all add: tsString_def showNat.simps digit_def Let_def)

text \<open>
  C8, as the claim has it, fails for a reply without data: the handler of \<^verbatim>\<open>auth\<close>
  throws when it reads \<^verbatim>\<open>authRes.data.ok\<close>, and \<^verbatim>\<open>connect()\<close> is neither resolved nor
  rejected. It throws as well, in the template literal, when \<^verbatim>\<open>data.error\<close> is an
  object with a member \<^verbatim>\<open>toString\<close>.
\<close>

theorem auth_reply_without_data_counterexample:
  "fst (handleMessage exampleHmac 8 Deferred
         \<lparr>e = Some ''auth'', oid = Some ''auth'', ok = None, data = Undefined, others = []\<rparr>
         (auth exampleHmac 7 Deferred 0 examplePrivateOpen))
     = Some (TypeErr ''Cannot read properties of undefined'')
   \<and> outcomeOf (snd (handleMessage exampleHmac 8 Deferred
         \<lparr>e = Some ''auth'', oid = Some ''auth'', ok = None, data = Undefined, others = []\<rparr>
         (auth exampleHmac 7 Deferred 0 examplePrivateOpen))) 0 = Pending
   \<and> settles (snd (handleMessage exampleHmac 8 Deferred
         \<lparr>e = Some ''auth'', oid = Some ''auth'', ok = None, data = Undefined, others = []\<rparr>
         (auth exampleHmac 7 Deferred 0 examplePrivateOpen))) = []
   \<and> fst (handleMessage exampleHmac 8 Deferred
         \<lparr>e = Some ''auth'', oid = Some ''auth'', ok = None,
            data = Obj [(''ok'', Str ''error''), (''error'', Obj [(''toString'', Num ''1'')])],
            others = []\<rparr>
         (auth exampleHmac 7 Deferred 0 examplePrivateOpen))
     = Some (TypeErr ''Cannot convert object to primitive value'')
   \<and> outcomeOf (snd (handleMessage exampleHmac 8 Deferred
         \<lparr>e = Some ''auth'', oid = Some ''auth'', ok = None,
            data = Obj [(''ok'', Str ''error''), (''error'', Obj [(''toString'', Num ''1'')])],
            others = []\<rparr>
         (auth exampleHmac 7 Deferred 0 examplePrivateOpen))) 0 = Pending"
  by (simp add: ex_defs)

text \<open>
  C8, amended. The signature is the keyed hash, under the secret, of the timestamp in
  seconds (the milliseconds as decimal fraction) followed by the api key; \<^verbatim>\<open>#auth\<close>
  sends the frame with key, signature and timestamp and registers the handler of the
  event \<^verbatim>\<open>auth\<close>. For a reply \<open>m\<close> to that handler that has data: when \<^verbatim>\<open>data.ok\<close> is
  \<^verbatim>\<open>'ok'\<close>, the client is authorized and the promise \<open>c\<close> of \<^verbatim>\<open>connect\<close> is resolved;
  otherwise, when \<^verbatim>\<open>data.error\<close> prints as \<open>s\<close> (a string as itself), \<open>c\<close> is rejected
  with the error whose message is \<^verbatim>\<open>'Authorization failure: '\<close> and \<open>s\<close>, and the
  authorization is as before.
\<close>

theorem auth_handshake:
  assumes "socketOpen st" and "apiSecret st = Str secret" and "toStr (apiKey st) = Inr key"
    and "c < length (promises st)" and "outcomeOf st c = Pending"
    and "st1 = auth hmac now Deferred c st"
    and "e m = Some ''auth''"
    and "getProp (data m) ''ok'' = Inr v" and "getProp (data m) ''error'' = Inr er"
    and "v = Str ''ok'' \<or> toStr er = Inr s"
    and "handleMessage hmac now' rep m st1 = (r, st2)"
  shows "createSignature hmac now st = Inr (hmac secret (tsString now @ key))
       \<and> sent st1 = sent st @ [AuthRequest (apiKey st) (hmac secret (tsString now @ key)) now]
       \<and> r = None
       \<and> (v = Str ''ok'' \<longrightarrow> isAuthorized st2 \<and> outcomeOf st2 c = Resolved Undefined)
       \<and> (v \<noteq> Str ''ok'' \<longrightarrow> isAuthorized st2 = isAuthorized st
            \<and> outcomeOf st2 c = Rejected (Err (''Authorization failure: '' @ s)))
       \<and> toStr (Str s0) = Inr s0
       \<and> tsString 1700000000123 = ''1700000000.123''
       \<and> tsString 1700000000120 = ''1700000000.12''
       \<and> tsString 1700000000000 = ''1700000000''"
proof -
  let ?a = "length (promises st)"
  have s1: "st1 = st\<lparr>promises := promises st @ [Pending],
        handlers := (handlers st)(''auth'' \<mapsto> HAuth ?a c),
        sent := sent st @ [AuthRequest (apiKey st) (hmac secret (tsString now @ key)) now]\<rparr>"
    using assms(6) auth_open [OF assms(1,2,3)] by simp
  have sig: "createSignature hmac now st = Inr (hmac secret (tsString now @ key))"
    using assms(2,3) by (simp add: createSignature_def Let_def)
  let ?st1' = "log (LogIncoming m) st1"
  have hm: "handleMessage hmac now' rep m st1 = authHandler ?a c m ?st1'"
    using assms(7) by (simp add: handleMessage_def invokeHandler_def s1 log_def Let_def)
  have pc: "promises st ! c = Pending" using assms(4,5) by (simp add: outcomeOf_def)
  have ps: "promises ?st1' = promises st @ [Pending]" by (simp add: s1 log_def)
  have ps': "promises (?st1'\<lparr>isAuthorized := True\<rparr>) = promises st @ [Pending]"
    by (simp add: s1 log_def)
  have au: "isAuthorized ?st1' = isAuthorized st" by (simp add: s1 log_def)
  have main: "r = None
       \<and> (v = Str ''ok'' \<longrightarrow> isAuthorized st2 \<and> outcomeOf st2 c = Resolved Undefined)
       \<and> (v \<noteq> Str ''ok'' \<longrightarrow> isAuthorized st2 = isAuthorized st
            \<and> outcomeOf st2 c = Rejected (Err (''Authorization failure: '' @ s)))"
  proof (cases "v = Str ''ok''")
    case True
    have "authHandler ?a c m ?st1'
        = (None, settleAwaited ?a c (Resolved Undefined) (?st1'\<lparr>isAuthorized := True\<rparr>))"
      using assms(8) True by (simp add: authHandler_def)
    then have st2: "st2 = settleAwaited ?a c (Resolved Undefined) (?st1'\<lparr>isAuthorized := True\<rparr>)"
      and r: "r = None"
      using assms(11) hm by simp_all
    show ?thesis
      using True r settleAwaited_fresh [OF assms(4) pc ps', of "Resolved Undefined"]
      by (simp add: st2)
  next
    case False
    then have ts: "toStr er = Inr s" using assms(10) by simp
    have "authHandler ?a c m ?st1'
        = (None, settleAwaited ?a c (Rejected (Err (''Authorization failure: '' @ s))) ?st1')"
      using assms(8,9) False ts by (simp add: authHandler_def)
    then have st2: "st2 = settleAwaited ?a c (Rejected (Err (''Authorization failure: '' @ s))) ?st1'"
      and r: "r = None"
      using assms(11) hm by simp_all
    show ?thesis
      using False r au
        settleAwaited_fresh [OF assms(4) pc ps, of "Rejected (Err (''Authorization failure: '' @ s))"]
      by (simp add: st2)
  qed
  show ?thesis
    using main sig s1 by (simp add: tsString_examples)
qed

theorem auth_handshake_witness:
  "socketOpen examplePrivateOpen \<and> outcomeOf examplePrivateOpen 0 = Pending
   \<and> sent (auth exampleHmac 1700000000123 Deferred 0 examplePrivateOpen)
       = [AuthRequest (Str ''key'') ''secret1700000000.123key'' 1700000000123]
   \<and> isAuthorized (snd (handleMessage exampleHmac 8 Deferred exampleAuthOk
        (auth exampleHmac 1700000000123 Deferred 0 examplePrivateOpen)))
   \<and> outcomeOf (snd (handleMessage exampleHmac 8 Deferred exampleAuthOk
        (auth exampleHmac 1700000000123 Deferred 0 examplePrivateOpen))) 0 = Resolved Undefined
   \<and> \<not> isAuthorized (snd (handleMessage exampleHmac 8 Deferred
        \<lparr>e = Some ''auth'', oid = Some ''auth'', ok = None,
           data = Obj [(''ok'', Str ''error''), (''error'', Str ''bad signature'')], others = []\<rparr>
        (auth exampleHmac 1700000000123 Deferred 0 examplePrivateOpen)))
   \<and> outcomeOf (snd (handleMessage exampleHmac 8 Deferred
        \<lparr>e = Some ''auth'', oid = Some ''auth'', ok = None,
           data = Obj [(''ok'', Str ''error''), (''error'', Str ''bad signature'')], others = []\<rparr>
        (auth exampleHmac 1700000000123 Deferred 0 examplePrivateOpen))) 0
       = Rejected (Err ''Authorization failure: bad signature'')"
proof -
  let ?bad = "\<lparr>e = Some ''auth'', oid = Some ''auth'', ok = None,
           data = Obj [(''ok'', Str ''error''), (''error'', Str ''bad signature'')], others = []\<rparr>"
  have h1: "socketOpen examplePrivateOpen" by (rule examplePrivateOpen_fields)
  have h2: "apiSecret examplePrivateOpen = Str ''secret''" by (rule examplePrivateOpen_fields)
  have h3: "toStr (apiKey examplePrivateOpen) = Inr ''key''" by (simp add: examplePrivateOpen_fields)
  have h4: "0 < length (promises examplePrivateOpen)" by (simp add: examplePrivateOpen_fields)
  have h5: "outcomeOf examplePrivateOpen 0 = Pending"
    by (simp add: outcomeOf_def examplePrivateOpen_fields)
  have h7: "e exampleAuthOk = Some ''auth''" by (simp add: exampleAuthOk_def)
  have h8: "getProp (data exampleAuthOk) ''ok'' = Inr (Str ''ok'')" by (simp add: exampleAuthOk_def)
  have h9: "getProp (data exampleAuthOk) ''error'' = Inr Undefined" by (simp add: exampleAuthOk_def)
  have h10: "Str ''ok'' = Str ''ok'' \<or> toStr Undefined = Inr ''undefined''" by simp
  have b7: "e ?bad = Some ''auth''" by simp
  have b8: "getProp (data ?bad) ''ok'' = Inr (Str ''error'')" by simp
  have b9: "getProp (data ?bad) ''error'' = Inr (Str ''bad signature'')" by simp
  have b10: "Str ''error'' = Str ''ok'' \<or> toStr (Str ''bad signature'') = Inr ''bad signature''"
    by simp
  show ?thesis
    using auth_handshake [OF h1 h2 h3 h4 h5 refl h7 h8 h9 h10 surjective_pairing,
        where hmac = exampleHmac and now = 1700000000123 and now' = 8 and rep = Deferred]
      auth_handshake [OF h1 h2 h3 h4 h5 refl b7 b8 b9 b10 surjective_pairing,
        where hmac = exampleHmac and now = 1700000000123 and now' = 8 and rep = Deferred]
      h1 h5
    by (simp add: examplePrivateOpen_fields exampleHmac_def)
qed
section \<open>The registry stays well formed\<close>

lemma wf_same:
  assumes "wellFormed st" and "waitForResp st' = waitForResp st"
    and "length (promises st) \<le> length (promises st')"
  shows "wellFormed st'"
  using assms by (auto simp: wellFormed_def list_all_iff)

lemma wf_delete:
  assumes "wellFormed st" and "waitForResp st' = AList.delete k (waitForResp st)"
    and "length (promises st) \<le> length (promises st')"
  shows "wellFormed st'"
proof -
  have d1: "distinct (map fst (AList.delete k (waitForResp st)))"
    using assms(1) by (simp add: wellFormed_def distinct_delete)
  have d2: "distinct (map snd (AList.delete k (waitForResp st)))"
    using assms(1) by (simp add: wellFormed_def AList.delete_eq distinct_map_filter)
  have b: "list_all (\<lambda>kv. snd kv < length (promises st')) (AList.delete k (waitForResp st))"
    using assms(1,3) by (auto simp: wellFormed_def list_all_iff AList.delete_eq)
  show ?thesis
    using d1 d2 b assms(2) by (simp add: wellFormed_def)
qed

lemma update_set: "set (AList.update k v al) \<subseteq> insert (k, v) (set al)"
  by (induction al) auto

lemma update_distinct_snd:
  "distinct (map snd al) \<Longrightarrow> v \<notin> snd ` set al \<Longrightarrow> distinct (map snd (AList.update k v al))"
proof (induction al)
  case Nil
  then show ?case by simp
next
  case (Cons x xs)
  obtain k' v' where x: "x = (k', v')" by (cases x)
  have s: "snd ` set (AList.update k v xs) \<subseteq> insert v (snd ` set xs)"
    using update_set [of k v xs] by force
  show ?case
  proof (cases "k' = k")
    case True
    then show ?thesis using Cons.prems x by auto
  next
    case False
    have "v' \<notin> snd ` set (AList.update k v xs)"
      using s Cons.prems x by auto
    then show ?thesis using Cons x False by auto
  qed
qed

lemma wf_update:
  assumes "wellFormed st" and "waitForResp st' = AList.update k (length (promises st)) (waitForResp st)"
    and "length (promises st') = Suc (length (promises st))"
  shows "wellFormed st'"
proof -
  let ?p = "length (promises st)"
  have fresh: "?p \<notin> snd ` set (waitForResp st)"
    using assms(1) by (auto simp: wellFormed_def list_all_iff)
  have d1: "distinct (map fst (waitForResp st'))"
    using assms(1,2) by (simp add: wellFormed_def distinct_update)
  have d2: "distinct (map snd (waitForResp st'))"
    using assms(1,2) fresh by (simp add: wellFormed_def update_distinct_snd)
  have b: "list_all (\<lambda>kv. snd kv < length (promises st')) (waitForResp st')"
    using assms update_set [of k ?p "waitForResp st"]
    by (fastforce simp: wellFormed_def list_all_iff)
  show ?thesis using d1 d2 b by (simp add: wellFormed_def)
qed

lemma wf_cancelAllStep: "wellFormed st \<Longrightarrow> wellFormed (snd (cancelAllStep err k st))"
proof (cases "map_of (waitForResp st) k")
  case None
  assume "wellFormed st"
  then show ?thesis using None by (simp add: cancelAllStep_def)
next
  case (Some p)
  assume w: "wellFormed st"
  show ?thesis
    unfolding cancelAllStep_present [OF Some]
    by (rule wf_delete [OF w, of _ k]) simp_all
qed

lemma wf_cancelAllLoop: "wellFormed st \<Longrightarrow> wellFormed (snd (cancelAllLoop err ks st))"
proof (induction ks arbitrary: st)
  case Nil
  then show ?case by simp
next
  case (Cons k ks)
  obtain r st1 where s: "cancelAllStep err k st = (r, st1)" by (cases "cancelAllStep err k st")
  have w1: "wellFormed st1" using wf_cancelAllStep [OF Cons.prems, of err k] s by simp
  show ?case
  proof (cases r)
    case None
    then show ?thesis using s Cons.IH [OF w1] by simp
  next
    case (Some ex)
    then show ?thesis using s w1 by simp
  qed
qed

lemma wf_cancelAll: "wellFormed st \<Longrightarrow> wellFormed (snd (cancelAllOidReplies err st))"
  by (simp add: cancelAllOidReplies_def wf_cancelAllLoop)

lemma wf_settleAwaited:
  assumes "wellFormed st"
  shows "wellFormed (settleAwaited a c oc st)"
  by (rule wf_same [OF assms]) (simp_all add: settleAwaited_def)

lemma wf_auth: "wellFormed st \<Longrightarrow> wellFormed (auth hmac now rep c st)"
proof -
  assume w: "wellFormed st"
  have w1: "wellFormed (st\<lparr>promises := promises st @ [Pending]\<rparr>)"
    by (rule wf_same [OF w]) simp_all
  have w2: "wellFormed (addHandler ''auth'' (HAuth (length (promises st)) c) (st\<lparr>promises := promises st @ [Pending]\<rparr>))"
    by (rule wf_same [OF w1]) (simp_all add: addHandler_def)
  have w3: "\<And>x. wellFormed (addHandler ''auth'' (HAuth (length (promises st)) c)
      (st\<lparr>promises := promises st @ [Pending]\<rparr>)\<lparr>sent := x\<rparr>)"
    by (rule wf_same [OF w2]) simp_all
  show ?thesis
    using w1 w2 w3
    by (simp add: auth_def getDefer_def Let_def authSendCallback_def wf_settleAwaited
        split: sum.splits send_report.splits)
qed

lemma wf_authHandler: "wellFormed st \<Longrightarrow> wellFormed (snd (authHandler a c m st))"
proof -
  assume w: "wellFormed st"
  have w1: "wellFormed (st\<lparr>isAuthorized := True\<rparr>)" by (rule wf_same [OF w]) simp_all
  show ?thesis
    using w w1 by (simp add: authHandler_def wf_settleAwaited split: sum.splits)
qed

lemma wf_handleOidReply: "wellFormed st \<Longrightarrow> wellFormed (snd (handleOidReply m st))"
proof (cases "map_of (waitForResp st) (propKey (oid m))")
  case None
  assume w: "wellFormed st"
  have "wellFormed (log (LogNoHandler m (map fst (waitForResp st))) st)"
    by (rule wf_same [OF w]) (simp_all add: log_def)
  moreover have "wellFormed (clearTimeout (waitTimers st (propKey (oid m))) st)"
    by (rule wf_same [OF w]) simp_all
  ultimately show ?thesis
    using None by (simp add: handleOidReply_def Let_def split: sum.splits)
next
  case (Some p)
  assume w: "wellFormed st"
  let ?k = "propKey (oid m)"
  let ?st2 = "clearTimeout (waitTimers st ?k) (st\<lparr>waitForResp := AList.delete ?k (waitForResp st)\<rparr>)"
  have w2: "wellFormed ?st2" by (rule wf_delete [OF w, of _ ?k]) simp_all
  have w3: "\<And>oc. wellFormed (settle p oc ?st2)" by (rule wf_same [OF w2]) simp_all
  show ?thesis
    using Some w2 w3 by (simp add: handleOidReply_def Let_def split: sum.splits)
qed

lemma wf_log:
  assumes "wellFormed st"
  shows "wellFormed (log l st)"
  by (rule wf_same [OF assms]) (simp_all add: log_def)

lemma wf_invokeHandler:
  assumes "wellFormed st"
  shows "wellFormed (snd (invokeHandler hmac now rep h arg0 st))"
proof -
  have a: "wellFormed (st\<lparr>isAuthorized := False\<rparr>)" by (rule wf_same [OF assms]) simp_all
  have b: "\<And>c. wellFormed (settle c (Resolved Undefined) st)" by (rule wf_same [OF assms]) simp_all
  have c: "\<And>x. wellFormed (st\<lparr>invoked := x\<rparr>)" by (rule wf_same [OF assms]) simp_all
  show ?thesis
    by (cases h)
      (simp_all add: invokeHandler_def wf_cancelAll [OF a] wf_auth [OF assms]
        wf_authHandler [OF assms] assms b c split: option.splits)
qed

lemma wf_callInherited:
  assumes "wellFormed st"
  shows "wellFormed (snd (callInherited hmac now rep k m st))"
  using assms by (simp add: callInherited_def wf_invokeHandler split: option.splits)

lemma wf_handleMessage: "wellFormed st \<Longrightarrow> wellFormed (snd (handleMessage hmac now rep m st))"
proof -
  assume w: "wellFormed st"
  let ?st1 = "log (LogIncoming m) st"
  have w1: "wellFormed ?st1" by (rule wf_log [OF w])
  show ?thesis
    using w1 wf_handleOidReply [OF w1, of m] wf_log [OF w1] wf_invokeHandler [OF w1]
      wf_callInherited [OF w1]
    by (simp add: handleMessage_def Let_def split: option.splits)
qed

lemma wf_socketOnClose: "wellFormed st \<Longrightarrow> wellFormed (snd (socketOnClose c cb err st))"
proof -
  assume w: "wellFormed st"
  let ?st0 = "st\<lparr>socket := None, isAuthorized := False\<rparr>"
  have w0: "wellFormed ?st0" by (rule wf_same [OF w]) simp_all
  obtain r s1 where s: "cancelAllOidReplies err ?st0 = (r, s1)"
    by (cases "cancelAllOidReplies err ?st0")
  have w1: "wellFormed s1" using wf_cancelAll [OF w0, of err] s by simp
  have w2: "wellFormed (notify cb err (settle c (Rejected err) s1))" by (rule wf_same [OF w1]) simp_all
  show ?thesis using s w1 w2 by (cases r) (simp_all add: socketOnClose_def)
qed

lemma wf_socketOnError: "wellFormed st \<Longrightarrow> wellFormed (snd (socketOnError c cb err st))"
proof -
  assume w: "wellFormed st"
  let ?st0 = "st\<lparr>socket := None\<rparr>"
  have w0: "wellFormed ?st0" by (rule wf_same [OF w]) simp_all
  obtain r s1 where s: "cancelAllOidReplies err ?st0 = (r, s1)"
    by (cases "cancelAllOidReplies err ?st0")
  have w1: "wellFormed s1" using wf_cancelAll [OF w0, of err] s by simp
  have w2: "wellFormed (notify cb err (settle c (Rejected err) s1))" by (rule wf_same [OF w1]) simp_all
  show ?thesis using s w1 w2 by (cases r) (simp_all add: socketOnError_def)
qed

lemma wf_cancelOidReply: "wellFormed st \<Longrightarrow> wellFormed (cancelOidReply k reason st)"
proof -
  assume w: "wellFormed st"
  let ?st1 = "case map_of (waitForResp st) k of
                   None \<Rightarrow> st
                 | Some p \<Rightarrow>
                     (settle p (Rejected (cancelError k reason)) st)
                       \<lparr>waitForResp := AList.delete k (waitForResp st)\<rparr>"
  have w1: "wellFormed ?st1"
  proof (cases "map_of (waitForResp st) k")
    case None
    then show ?thesis using w by simp
  next
    case (Some p)
    have "wellFormed ((settle p (Rejected (cancelError k reason)) st)
                       \<lparr>waitForResp := AList.delete k (waitForResp st)\<rparr>)"
      by (rule wf_delete [OF w, of _ k]) simp_all
    then show ?thesis using Some by simp
  qed
  have w2: "\<And>t. wellFormed (clearTimeout (Some t) ?st1)" by (rule wf_same [OF w1]) simp_all
  have "cancelOidReply k reason st =
      (case waitTimers ?st1 k of None \<Rightarrow> ?st1 | Some t \<Rightarrow> clearTimeout (Some t) ?st1)"
    by (simp add: cancelOidReply_def Let_def cong: option.case_cong)
  then show ?thesis using w1 w2 by (simp split: option.splits)
qed

lemma wf_timerFire: "wellFormed st \<Longrightarrow> wellFormed (timerFire t st)"
proof -
  assume w: "wellFormed st"
  have "\<And>x. wellFormed (st\<lparr>timers := x\<rparr>)" by (rule wf_same [OF w]) simp_all
  then show ?thesis using w by (simp add: timerFire_def wf_cancelOidReply split: option.splits)
qed

lemma wf_sendCallback: "wellFormed st \<Longrightarrow> wellFormed (snd (sendCallback k err st))"
proof -
  assume w: "wellFormed st"
  let ?st1 = "st\<lparr>waitForResp := AList.delete k (waitForResp st)\<rparr>"
  have w1: "wellFormed ?st1" by (rule wf_delete [OF w, of _ k]) simp_all
  have w2: "\<And>p. wellFormed (settle p (Rejected err) ?st1)" by (rule wf_same [OF w1]) simp_all
  show ?thesis using w w1 w2 by (simp add: sendCallback_def Let_def split: option.splits)
qed

lemma wf_callRequest: "wellFormed st \<Longrightarrow> wellFormed (snd (callRequest name args now rep st))"
proof (cases "socketOpen st")
  case False
  assume "wellFormed st"
  then show ?thesis using False by (simp add: callRequest_def)
next
  case True
  assume w: "wellFormed st"
  let ?k = "newOid now (Suc (oidSeqId st)) name"
  let ?st7 = "st\<lparr>oidSeqId := Suc (oidSeqId st), promises := promises st @ [Pending],
                   waitForResp := AList.update ?k (length (promises st)) (waitForResp st),
                   timers := (timers st)(timerSeq st \<mapsto> ?k), timerSeq := Suc (timerSeq st),
                   waitTimers := (waitTimers st)(?k \<mapsto> timerSeq st),
                   logs := logs st @ [LogSending (Request name (defaultParams args) ?k)],
                   sent := sent st @ [Request name (defaultParams args) ?k]\<rparr>"
  have w7: "wellFormed ?st7" by (rule wf_update [OF w, of _ ?k]) simp_all
  show ?thesis
    unfolding callRequest_snd [OF True]
    using w7 wf_sendCallback [OF w7, of ?k]
    by (simp add: Let_def split: send_report.splits)
qed

lemma wf_step: "wellFormed st \<Longrightarrow> wellFormed (step hmac st x)"
proof (cases x)
  case (OpConnect thrown)
  assume w: "wellFormed st"
  have "wellFormed (snd (connect thrown st))"
    by (rule wf_same [OF w])
      (simp_all add: connect_def getDefer_def log_def addHandler_def Let_def split: option.splits)
  then show ?thesis using OpConnect by simp
next
  case OpTransportOpened
  assume w: "wellFormed st"
  have "wellFormed (transportOpened st)" by (rule wf_same [OF w]) (simp_all add: transportOpened_def)
  then show ?thesis using OpTransportOpened by simp
next
  case (OpMessage m now rep)
  assume "wellFormed st"
  then show ?thesis using OpMessage by (simp add: wf_handleMessage)
next
  case (OpSocketClose c cb err)
  assume "wellFormed st"
  then show ?thesis using OpSocketClose by (simp add: wf_socketOnClose)
next
  case (OpSocketError c cb err)
  assume "wellFormed st"
  then show ?thesis using OpSocketError by (simp add: wf_socketOnError)
next
  case (OpTimerFire t)
  assume "wellFormed st"
  then show ?thesis using OpTimerFire by (simp add: wf_timerFire)
next
  case (OpCallPublic name args now rep)
  assume "wellFormed st"
  then show ?thesis using OpCallPublic by (simp add: callPublic_def wf_callRequest)
next
  case (OpCallPrivate name args now rep)
  assume "wellFormed st"
  then show ?thesis using OpCallPrivate by (simp add: callPrivate_def wf_callRequest)
next
  case (OpSendCallback k err)
  assume "wellFormed st"
  then show ?thesis using OpSendCallback by (simp add: wf_sendCallback)
next
  case (OpAuthSendCallback a c err)
  assume "wellFormed st"
  then show ?thesis using OpAuthSendCallback by (simp add: authSendCallback_def wf_settleAwaited)
next
  case (OpSubscribe event cb)
  assume w: "wellFormed st"
  have "wellFormed (subscribe event cb st)"
    by (rule wf_same [OF w]) (simp_all add: subscribe_def addHandler_def)
  then show ?thesis using OpSubscribe by simp
next
  case OpDisconnect
  assume w: "wellFormed st"
  have "wellFormed (disconnect st)" by (rule wf_same [OF w]) (simp_all add: disconnect_def)
  then show ?thesis using OpDisconnect by simp
next
  case OpPing
  assume w: "wellFormed st"
  have "wellFormed (snd (ping st))" by (rule wf_same [OF w]) (simp_all add: ping_def)
  then show ?thesis using OpPing by simp
qed

text \<open>
  Every client that the constructor returns has a well-formed registry, and so has every
  client reached from it by method calls and callbacks.
\<close>

lemma wf_run: "wellFormed st \<Longrightarrow> wellFormed (run hmac st ops)"
  unfolding run_def by (induction ops arbitrary: st) (simp_all add: wf_step)

lemma wf_constructor: "constructor args = Inr st \<Longrightarrow> wellFormed st"
  by (simp add: wellFormed_def constructor_Inr(4))

lemma wf_reachable: "constructor args = Inr st \<Longrightarrow> wellFormed (run hmac st ops)"
  by (rule wf_run [OF wf_constructor])
section \<open>The oids of the live timers\<close>

text \<open>
  Only \<^verbatim>\<open>#callRequest\<close> starts a timer, for the oid that it has just made; everything
  else leaves the live timers as they are or clears some. So the oid of a live timer of a
  client that the constructor returned is never an inherited name.
\<close>

lemma clearTimeout_le: "map_le (timers (clearTimeout x st)) (timers st)"
  by (cases x) (auto simp: map_le_def)

lemma settleAwaited_timers [simp]: "timers (settleAwaited a c oc st) = timers st"
  by (simp add: settleAwaited_def)

lemma cancelAllStep_le: "map_le (timers (snd (cancelAllStep err k st))) (timers st)"
  by (auto simp: cancelAllStep_def Let_def map_le_def clearTimeout_timers split: option.splits)

lemma cancelAllLoop_le: "map_le (timers (snd (cancelAllLoop err ks st))) (timers st)"
proof (induction ks arbitrary: st)
  case Nil
  then show ?case by simp
next
  case (Cons k ks)
  obtain r st1 where s: "cancelAllStep err k st = (r, st1)" by (cases "cancelAllStep err k st")
  have l1: "map_le (timers st1) (timers st)" using cancelAllStep_le [of err k st] s by simp
  show ?case
  proof (cases r)
    case None
    have "map_le (timers (snd (cancelAllLoop err ks st1))) (timers st1)" by (rule Cons.IH)
    then show ?thesis using s None l1 by (auto intro: map_le_trans)
  next
    case (Some ex)
    then show ?thesis using s l1 by simp
  qed
qed

lemma cancelAll_le: "map_le (timers (snd (cancelAllOidReplies err st))) (timers st)"
  by (simp add: cancelAllOidReplies_def cancelAllLoop_le)

lemma auth_timers: "timers (auth hmac now rep c st) = timers st"
  by (simp add: auth_def getDefer_def addHandler_def authSendCallback_def Let_def
      split: sum.splits send_report.splits)

lemma authHandler_timers: "timers (snd (authHandler a c m st)) = timers st"
  by (simp add: authHandler_def split: sum.splits)

lemma handleOidReply_le: "map_le (timers (snd (handleOidReply m st))) (timers st)"
  by (auto simp: handleOidReply_def log_def Let_def map_le_def clearTimeout_timers
      split: option.splits sum.splits if_splits)

lemma invokeHandler_le: "map_le (timers (snd (invokeHandler hmac now rep h arg0 st))) (timers st)"
proof (cases h)
  case HDisconnected
  then show ?thesis
    using cancelAll_le [of "Str ''disconnected from server''" "st\<lparr>isAuthorized := False\<rparr>"]
    by (simp add: invokeHandler_def)
qed (simp_all add: invokeHandler_def auth_timers authHandler_timers split: option.splits)

lemma callInherited_le: "map_le (timers (snd (callInherited hmac now rep k m st))) (timers st)"
  by (simp add: callInherited_def invokeHandler_le split: option.splits)

lemma handleMessage_le: "map_le (timers (snd (handleMessage hmac now rep m st))) (timers st)"
proof -
  let ?st1 = "log (LogIncoming m) st"
  have t: "timers ?st1 = timers st" "handlers ?st1 = handlers st" by (simp_all add: log_def)
  show ?thesis
  proof (cases "handlers st (propKey (e m))")
    case (Some h)
    then have "handleMessage hmac now rep m st = invokeHandler hmac now rep h (Some m) ?st1"
      by (simp add: handleMessage_def t)
    then show ?thesis using invokeHandler_le [of hmac now rep h "Some m" ?st1] by (simp add: t)
  next
    case None
    show ?thesis
    proof (cases "inherited (propKey (e m))")
      case True
      then have "handleMessage hmac now rep m st
          = callInherited hmac now rep (propKey (e m)) m ?st1"
        using None by (simp add: handleMessage_def t)
      then show ?thesis
        using callInherited_le [of hmac now rep "propKey (e m)" m ?st1] by (simp add: t)
    next
      case False
      show ?thesis
      proof (cases "truthyField (oid m)")
        case True
        then have "handleMessage hmac now rep m st = handleOidReply m ?st1"
          using None False by (simp add: handleMessage_def t)
        then show ?thesis using handleOidReply_le [of m ?st1] by (simp add: t)
      next
        case nt: False
        have "timers (snd (handleMessage hmac now rep m st)) = timers st"
          using None False nt by (simp add: handleMessage_def t Let_def) (simp add: log_def)
        then show ?thesis by simp
      qed
    qed
  qed
qed

lemma socketOnClose_le: "map_le (timers (snd (socketOnClose c cb err st))) (timers st)"
  using cancelAll_le [of err "st\<lparr>socket := None, isAuthorized := False\<rparr>"]
  by (auto simp: socketOnClose_def split: prod.splits option.splits)

lemma socketOnError_le: "map_le (timers (snd (socketOnError c cb err st))) (timers st)"
  using cancelAll_le [of err "st\<lparr>socket := None\<rparr>"]
  by (auto simp: socketOnError_def split: prod.splits option.splits)

lemma cancelOidReply_le: "map_le (timers (cancelOidReply k reason st)) (timers st)"
  by (auto simp: cancelOidReply_def Let_def map_le_def split: option.splits if_splits)

lemma timerFire_le: "map_le (timers (timerFire t st)) (timers st)"
proof (cases "timers st t")
  case None
  then show ?thesis by (simp add: timerFire_def)
next
  case (Some k)
  have "map_le (timers (cancelOidReply k (Str ''request timeout'') (st\<lparr>timers := (timers st)(t := None)\<rparr>)))
      (timers (st\<lparr>timers := (timers st)(t := None)\<rparr>))"
    by (rule cancelOidReply_le)
  moreover have "map_le (timers (st\<lparr>timers := (timers st)(t := None)\<rparr>)) (timers st)"
    by (auto simp: map_le_def)
  ultimately show ?thesis using Some by (auto simp: timerFire_def intro: map_le_trans)
qed

lemma sendCallback_timers: "timers (snd (sendCallback k err st)) = timers st"
  by (simp add: sendCallback_def Let_def split: option.splits)

lemma callRequest_timers:
  assumes "timers (snd (callRequest name args now rep st)) t = Some k"
  shows "timers st t = Some k \<or> k = newOid now (Suc (oidSeqId st)) name"
proof (cases "socketOpen st")
  case False
  then show ?thesis using assms by (simp add: callRequest_def)
next
  case True
  show ?thesis
    using assms unfolding callRequest_snd [OF True]
    by (simp add: Let_def sendCallback_timers split: send_report.splits if_splits)
qed

lemma step_timers:
  assumes "timers (step hmac st x) t = Some k"
  shows "timers st t = Some k \<or> \<not> inherited k"
proof -
  have le: "\<And>st'. map_le (timers st') (timers st) \<Longrightarrow> timers st' t = Some k \<Longrightarrow> timers st t = Some k"
    by (auto simp: map_le_def dom_def)
  show ?thesis
  proof (cases x)
    case (OpMessage m now rep)
    then show ?thesis using assms le [OF handleMessage_le] by simp
  next
    case (OpSocketClose c cb err)
    then show ?thesis using assms le [OF socketOnClose_le] by simp
  next
    case (OpSocketError c cb err)
    then show ?thesis using assms le [OF socketOnError_le] by simp
  next
    case (OpTimerFire u)
    then show ?thesis using assms le [OF timerFire_le] by simp
  next
    case (OpCallPublic name args now rep)
    then show ?thesis
      using assms callRequest_timers [of name "defaultParams args" now rep st t k]
        newOid_not_inherited
      by (auto simp: callPublic_def split: if_splits)
  next
    case (OpCallPrivate name args now rep)
    then show ?thesis
      using assms callRequest_timers [of name "defaultParams args" now rep st t k]
        newOid_not_inherited
      by (auto simp: callPrivate_def split: if_splits)
  qed (use assms in \<open>simp_all add: connect_def getDefer_def log_def addHandler_def Let_def
        transportOpened_def sendCallback_timers authSendCallback_def subscribe_def
        disconnect_def ping_def split: option.splits if_splits\<close>)
qed

lemma run_timers:
  assumes "\<forall>t k. timers st t = Some k \<longrightarrow> \<not> inherited k"
  shows "\<forall>t k. timers (run hmac st ops) t = Some k \<longrightarrow> \<not> inherited k"
  using assms unfolding run_def
proof (induction ops arbitrary: st)
  case Nil
  then show ?case by simp
next
  case (Cons x xs)
  have "\<forall>t k. timers (step hmac st x) t = Some k \<longrightarrow> \<not> inherited k"
    using step_timers [of hmac st x] Cons.prems by blast
  then show ?case using Cons.IH [of "step hmac st x"] by simp
qed

lemma timers_reachable:
  assumes "constructor args = Inr st" and "timers (run hmac st ops) t = Some k"
  shows "\<not> inherited k"
proof -
  have "timers st = Map.empty" by (rule constructor_Inr(6) [OF assms(1)])
  then have "\<forall>t k. timers st t = Some k \<longrightarrow> \<not> inherited k" by simp
  from run_timers [OF this] assms(2) show ?thesis by blast
qed

end
